theory Spec2Isabelle
  imports Main "HOL-Library.Word"
begin

section \<open>Characters and C strings\<close>

text \<open>
  Text is a list of \<^typ>\<open>char\<close> (one byte each).  A \<^verbatim>\<open>const char*\<close> is the list of the
  bytes before the terminating NUL, so a pointer into a string is a suffix of that list
  and the empty list is a pointer at the terminator.  \<open>cstr\<close> reads a buffer the way
  the C library does: up to the first NUL byte.
\<close>

definition NUL :: char where
  "NUL = CHR 0x00"

definition LF :: char where
  "LF = CHR 0x0A"

definition CR :: char where
  "CR = CHR 0x0D"

definition cstr :: "char list \<Rightarrow> string" where
  "cstr buf = takeWhile (\<lambda>c. c \<noteq> NUL) buf"

section \<open>cc1101\_bridge\_uart.c: the line reassembler\<close>

definition RX_BUFFER_SIZE :: nat where
  "RX_BUFFER_SIZE = 512"

definition LINE_BUFFER_SIZE :: nat where
  "LINE_BUFFER_SIZE = 1024"

text \<open>
  \<^verbatim>\<open>struct UartContext\<close>: the accumulator \<open>line_buffer\<close> (an array of
  \<open>LINE_BUFFER_SIZE\<close> bytes) and the write position \<open>line_pos\<close>.  The receive buffer
  \<open>rx_buffer\<close> only carries one burst from the transport into the loop and is the
  argument of \<open>rx_bytes\<close> below.
\<close>

record UartContext =
  line_buffer :: "char list"
  line_pos :: nat

text \<open>
  \<^verbatim>\<open>uart_init\<close> allocates the context with \<^verbatim>\<open>malloc\<close> and sets \<open>line_pos\<close> to 0; the
  buffer keeps whatever the allocation held, which is the argument here.
\<close>

definition uart_init :: "char list \<Rightarrow> UartContext" where
  "uart_init heap = \<lparr>line_buffer = heap, line_pos = 0\<rparr>"

text \<open>
  The body of the \<^verbatim>\<open>for\<close> loop of \<^verbatim>\<open>uart_receive_line\<close> for one byte \<open>c\<close>.  The
  second component is the line handed to the caller when the body executes
  \<^verbatim>\<open>return true\<close>: \<^verbatim>\<open>furi_string_set_str\<close> copies the buffer up to its first NUL.
\<close>

definition rx_byte :: "UartContext \<Rightarrow> char \<Rightarrow> UartContext \<times> string option" where
  "rx_byte ctx c =
     (if c = LF \<or> c = CR then
        (if line_pos ctx > 0 then
           (let buf = (line_buffer ctx)[line_pos ctx := NUL]
            in (ctx\<lparr>line_buffer := buf, line_pos := 0\<rparr>, Some (cstr buf)))
         else (ctx, None))
      else if line_pos ctx < LINE_BUFFER_SIZE - 1 then
        (ctx\<lparr>line_buffer := (line_buffer ctx)[line_pos ctx := c],
             line_pos := line_pos ctx + 1\<rparr>, None)
      else (ctx\<lparr>line_pos := 0\<rparr>, None))"

text \<open>
  The \<^verbatim>\<open>for\<close> loop over the \<open>available\<close> bytes of one burst.  It returns at the first
  completed line; the bytes of the burst after that terminator are not looked at again,
  because the next call overwrites \<open>rx_buffer\<close>.
\<close>

fun rx_bytes :: "UartContext \<Rightarrow> char list \<Rightarrow> UartContext \<times> string option" where
  "rx_bytes ctx [] = (ctx, None)"
| "rx_bytes ctx (c # cs) =
     (case rx_byte ctx c of
        (ctx', Some l) \<Rightarrow> (ctx', Some l)
      | (ctx', None) \<Rightarrow> rx_bytes ctx' cs)"

text \<open>
  One iteration of the \<^verbatim>\<open>while(true)\<close> loop sees one of two things: the tick
  comparison \<^verbatim>\<open>furi_get_tick() - start_time > timeout_ms\<close> holds (\<open>Elapsed\<close>), or
  \<^verbatim>\<open>furi_hal_cdc_receive\<close> hands over a burst of bytes, possibly none (\<open>Received\<close>).
  The environment of the reassembler is the list of these events, in order.
\<close>

datatype poll = Elapsed | Received "char list"

text \<open>
  \<^verbatim>\<open>uart_receive_line\<close>: the delivered line (or \<open>None\<close> for \<^verbatim>\<open>return false\<close>), the
  context, and the events not yet consumed.  A trace that ends is read as the timeout.
\<close>

fun uart_receive_line :: "UartContext \<Rightarrow> poll list \<Rightarrow> string option \<times> UartContext \<times> poll list" where
  "uart_receive_line ctx [] = (None, ctx, [])"
| "uart_receive_line ctx (Elapsed # ps) = (None, ctx, ps)"
| "uart_receive_line ctx (Received bs # ps) =
     (case rx_bytes ctx bs of
        (ctx', Some l) \<Rightarrow> (Some l, ctx', ps)
      | (ctx', None) \<Rightarrow> uart_receive_line ctx' ps)"

lemma uart_receive_line_consumes:
  "uart_receive_line ctx ps = (r, ctx', ps') \<Longrightarrow> ps \<noteq> [] \<Longrightarrow> length ps' < length ps"
proof (induction ctx ps rule: uart_receive_line.induct)
  case (3 ctx bs ps)
  then show ?case
    by (cases ps) (fastforce split: prod.splits option.splits)+
qed simp_all

text \<open>
  The main loop of \<^verbatim>\<open>cc1101_bridge_app\<close> calls \<^verbatim>\<open>uart_receive_line\<close> again and again;
  \<open>delivered_lines\<close> is the sequence of lines these calls hand to
  \<^verbatim>\<open>app_process_command\<close> over a whole trace.
\<close>

function delivered_lines :: "UartContext \<Rightarrow> poll list \<Rightarrow> string list" where
  "delivered_lines ctx ps =
     (if ps = [] then []
      else (case uart_receive_line ctx ps of
              (None, ctx', ps') \<Rightarrow> delivered_lines ctx' ps'
            | (Some l, ctx', ps') \<Rightarrow> l # delivered_lines ctx' ps'))"
  by pat_completeness auto
termination
  by (relation "measure (\<lambda>(ctx, ps). length ps)")
     (auto dest: uart_receive_line_consumes [OF sym])

declare delivered_lines.simps [simp del]

text \<open>All bytes a trace hands over, in order.\<close>

fun received :: "poll list \<Rightarrow> char list" where
  "received [] = []"
| "received (Elapsed # ps) = received ps"
| "received (Received bs # ps) = bs @ received ps"

section \<open>The C library functions the parser calls\<close>

text \<open>
  Two things the C code can do have no defined result, and the model returns them as
  faults instead of inventing one: a scan that steps over the string's terminator and
  reads on (\<open>Overread\<close>), and \<^verbatim>\<open>atoi\<close> on a number that does not fit
  an \<^verbatim>\<open>int\<close> (\<open>Int_overflow\<close>).
\<close>

datatype fault = Overread | Int_overflow

definition isspace :: "char \<Rightarrow> bool" where
  "isspace c = (c = CHR '' '' \<or> c = CHR 0x09 \<or> c = CHR 0x0A \<or> c = CHR 0x0B
                \<or> c = CHR 0x0C \<or> c = CHR 0x0D)"

definition isdigit :: "char \<Rightarrow> bool" where
  "isdigit c = (48 \<le> (of_char c :: nat) \<and> (of_char c :: nat) \<le> 57)"

definition digit_val :: "char \<Rightarrow> nat" where
  "digit_val c = of_char c - 48"

text \<open>The value of a run of decimal digits, most significant first.\<close>

definition digits_val :: "char list \<Rightarrow> nat" where
  "digits_val ds = foldl (\<lambda>a c. 10 * a + digit_val c) 0 ds"

text \<open>The \<^verbatim>\<open>int\<close> of the target, a 32-bit ARM.\<close>

definition INT_MAX :: int where
  "INT_MAX = 2147483647"

definition INT_MIN :: int where
  "INT_MIN = - 2147483648"

text \<open>
  \<^verbatim>\<open>atoi\<close> as the C standard describes it: white space is skipped, one sign is
  accepted, the longest run of digits is the magnitude, and no digit at all gives 0.
\<close>

definition atoi :: "char list \<Rightarrow> fault + int" where
  "atoi s =
     (let s1 = dropWhile isspace s;
          neg = (s1 \<noteq> [] \<and> hd s1 = CHR ''-'');
          s2 = (if s1 \<noteq> [] \<and> (hd s1 = CHR ''-'' \<or> hd s1 = CHR ''+'') then tl s1 else s1);
          n = int (digits_val (takeWhile isdigit s2));
          v = (if neg then - n else n)
      in if INT_MIN \<le> v \<and> v \<le> INT_MAX then Inr v else Inl Int_overflow)"

text \<open>\<^verbatim>\<open>strstr\<close>: the suffix starting at the first occurrence of the needle.\<close>

fun strstr :: "char list \<Rightarrow> char list \<Rightarrow> char list option" where
  "strstr [] needle = (if needle = [] then Some [] else None)"
| "strstr (c # cs) needle =
     (if take (length needle) (c # cs) = needle then Some (c # cs) else strstr cs needle)"

text \<open>\<^verbatim>\<open>strchr\<close> for a character other than NUL: the suffix starting at its first occurrence.\<close>

fun strchr :: "char list \<Rightarrow> char \<Rightarrow> char list option" where
  "strchr [] ch = None"
| "strchr (c # cs) ch = (if c = ch then Some (c # cs) else strchr cs ch)"

text \<open>
  \<^verbatim>\<open>strncmp(a, b, n) == 0\<close>: the two strings agree on their first \<open>n\<close> bytes, or end
  together before that.
\<close>

definition strncmp_eq :: "char list \<Rightarrow> char list \<Rightarrow> nat \<Rightarrow> bool" where
  "strncmp_eq a b n = (take n a = take n b)"

text \<open>\<^verbatim>\<open>printf\<close>'s \<^verbatim>\<open>%u\<close>, \<^verbatim>\<open>%d\<close> and \<^verbatim>\<open>%02X\<close>.\<close>

definition digit_char :: "nat \<Rightarrow> char" where
  "digit_char d = char_of (48 + d)"

function decimal :: "nat \<Rightarrow> string" where
  "decimal n = (if n < 10 then [digit_char n] else decimal (n div 10) @ [digit_char (n mod 10)])"
  by pat_completeness auto
termination
  by (relation "measure (\<lambda>n. n)") auto

declare decimal.simps [simp del]

definition show_int :: "int \<Rightarrow> string" where
  "show_int i = (if i < 0 then CHR ''-'' # decimal (nat (- i)) else decimal (nat i))"

definition hex_char :: "nat \<Rightarrow> char" where
  "hex_char d = (if d < 10 then char_of (48 + d) else char_of (55 + d))"

definition hex02 :: "8 word \<Rightarrow> string" where
  "hex02 w = [hex_char (unat w div 16), hex_char (unat w mod 16)]"

section \<open>cc1101\_bridge\_protocol.h: the data model\<close>

definition MAX_BULK_REGISTERS :: nat where
  "MAX_BULK_REGISTERS = 47"

datatype CommandType =
  CMD_UNKNOWN | CMD_WRITE_REGISTER | CMD_WRITE_BULK | CMD_READ_REGISTER | CMD_PING

datatype ErrorCode =
  ERR_INVALID_JSON | ERR_UNKNOWN_COMMAND | ERR_INVALID_ADDRESS
  | ERR_DEVICE_NOT_AVAILABLE | ERR_WRITE_FAILED

text \<open>The enumerators' values, as \<^verbatim>\<open>%d\<close> prints them.\<close>

fun error_code :: "ErrorCode \<Rightarrow> int" where
  "error_code ERR_INVALID_JSON = 1"
| "error_code ERR_UNKNOWN_COMMAND = 2"
| "error_code ERR_INVALID_ADDRESS = 3"
| "error_code ERR_DEVICE_NOT_AVAILABLE = 4"
| "error_code ERR_WRITE_FAILED = 5"

text \<open>
  \<^verbatim>\<open>RegisterPair\<close> and \<^verbatim>\<open>Command\<close>.  The C fields \<open>addr\<close>, \<open>value\<close> and \<open>type\<close>
  carry a prefix here (\<open>reg_\<close> for the pair, \<open>cmd_\<close> for the command).  \<open>bulk_regs\<close>
  is the array of \<open>MAX_BULK_REGISTERS\<close> pairs and \<open>pa_table\<close> the array of 8 bytes;
  the two counts say how many leading slots are in use.
\<close>

record RegisterPair =
  reg_addr :: "8 word"
  reg_value :: "8 word"

record Command =
  cmd_type :: CommandType
  cmd_addr :: "8 word"
  cmd_value :: "8 word"
  bulk_regs :: "RegisterPair list"
  bulk_count :: "8 word"
  pa_table :: "8 word list"
  pa_table_count :: "8 word"

text \<open>What \<^verbatim>\<open>memset(cmd, 0, sizeof(Command))\<close> leaves: every field zero.\<close>

definition zero_command :: Command where
  "zero_command =
     \<lparr>cmd_type = CMD_UNKNOWN, cmd_addr = 0, cmd_value = 0,
      bulk_regs = replicate MAX_BULK_REGISTERS \<lparr>reg_addr = 0, reg_value = 0\<rparr>,
      bulk_count = 0, pa_table = replicate 8 0, pa_table_count = 0\<rparr>"

section \<open>cc1101\_bridge\_protocol.c: the parser and the response encoder\<close>

text \<open>
  The pattern the parser repeats for each integer field: find the key with
  \<^verbatim>\<open>strstr\<close>, the next colon with \<^verbatim>\<open>strchr\<close>, and give \<^verbatim>\<open>atoi\<close> the text after the
  colon.  \<open>None\<close> when the key or the colon is missing, in which case the field keeps
  its value.
\<close>

definition int_field :: "char list \<Rightarrow> char list \<Rightarrow> fault + int option" where
  "int_field json key =
     (case strstr json key of
        None \<Rightarrow> Inr None
      | Some key_pos \<Rightarrow>
          (case strchr key_pos (CHR '':'') of
             None \<Rightarrow> Inr None
           | Some val \<Rightarrow>
               (case atoi (tl val) of Inl f \<Rightarrow> Inl f | Inr v \<Rightarrow> Inr (Some v))))"

lemma dropWhile_Cons_shorter: "dropWhile P xs = y # ys \<Longrightarrow> length ys < length xs"
proof -
  assume h: "dropWhile P xs = y # ys"
  have "length (dropWhile P xs) \<le> length xs"
    by (rule length_dropWhile_le)
  with h show ?thesis by simp
qed

text \<open>
  The scan of the \<open>registers\<close> object; \<open>p\<close> is the pointer of the same name.  Each
  iteration ends with \<^verbatim>\<open>p++\<close>, also when the inner scan has stopped at the
  terminator: the next test of \<^verbatim>\<open>*p\<close> then reads behind the string.
\<close>

function parse_registers :: "char list \<Rightarrow> Command \<Rightarrow> fault + Command" where
  "parse_registers p cmd =
     (case p of
        [] \<Rightarrow> Inr cmd
      | c # p1 \<Rightarrow>
          if c = CHR ''}'' \<or> \<not> unat (bulk_count cmd) < MAX_BULK_REGISTERS then Inr cmd
          else if c = CHR 0x22 then
            (case atoi p1 of
               Inl f \<Rightarrow> Inl f
             | Inr a \<Rightarrow>
                 (case dropWhile (\<lambda>x. x \<noteq> CHR '':'') p1 of
                    [] \<Rightarrow> Inl Overread
                  | colon # p2 \<Rightarrow>
                      (case atoi p2 of
                         Inl f \<Rightarrow> Inl f
                       | Inr v \<Rightarrow>
                           (case p2 of
                              [] \<Rightarrow> Inl Overread
                            | d # p3 \<Rightarrow>
                                parse_registers p3
                                  (cmd\<lparr>bulk_regs := (bulk_regs cmd)
                                          [unat (bulk_count cmd) :=
                                             \<lparr>reg_addr = word_of_int a, reg_value = word_of_int v\<rparr>],
                                        bulk_count := bulk_count cmd + 1\<rparr>)))))
          else parse_registers p1 cmd)"
  by pat_completeness auto
termination
  by (relation "measure (\<lambda>(p, cmd). length p)")
     (auto dest!: dropWhile_Cons_shorter)

declare parse_registers.simps [simp del]

text \<open>The scan of the \<open>pa_table\<close> array, with the same closing \<^verbatim>\<open>p++\<close>.\<close>

function parse_pa_table :: "char list \<Rightarrow> Command \<Rightarrow> fault + Command" where
  "parse_pa_table p cmd =
     (case p of
        [] \<Rightarrow> Inr cmd
      | c # p1 \<Rightarrow>
          if c = CHR '']'' \<or> \<not> unat (pa_table_count cmd) < 8 then Inr cmd
          else if isdigit c then
            (case atoi p of
               Inl f \<Rightarrow> Inl f
             | Inr v \<Rightarrow>
                 (case dropWhile isdigit p of
                    [] \<Rightarrow> Inl Overread
                  | d # p2 \<Rightarrow>
                      parse_pa_table p2
                        (cmd\<lparr>pa_table := (pa_table cmd)[unat (pa_table_count cmd) := word_of_int v],
                              pa_table_count := pa_table_count cmd + 1\<rparr>)))
          else parse_pa_table p1 cmd)"
  by pat_completeness auto
termination
  by (relation "measure (\<lambda>(p, cmd). length p)")
     (auto dest!: dropWhile_Cons_shorter)

declare parse_pa_table.simps [simp del]

text \<open>The three branches of \<^verbatim>\<open>protocol_parse_command\<close> that read fields.\<close>

definition parse_write_register :: "char list \<Rightarrow> Command \<Rightarrow> fault + Command" where
  \<open>parse_write_register json cmd =
     (case int_field json ''"addr"'' of
        Inl f \<Rightarrow> Inl f
      | Inr a \<Rightarrow>
          (let cmd1 = (case a of None \<Rightarrow> cmd | Some v \<Rightarrow> cmd\<lparr>cmd_addr := word_of_int v\<rparr>)
           in case int_field json ''"value"'' of
                Inl f \<Rightarrow> Inl f
              | Inr b \<Rightarrow>
                  Inr (case b of None \<Rightarrow> cmd1 | Some v \<Rightarrow> cmd1\<lparr>cmd_value := word_of_int v\<rparr>)))\<close>

definition parse_write_bulk :: "char list \<Rightarrow> Command \<Rightarrow> fault + Command" where
  \<open>parse_write_bulk json cmd =
     (case (case strstr json ''"registers"'' of
              None \<Rightarrow> Inr cmd
            | Some regs_pos \<Rightarrow>
                (case strchr regs_pos (CHR ''{'') of
                   None \<Rightarrow> Inr cmd
                 | Some regs_obj \<Rightarrow> parse_registers (tl regs_obj) cmd)) of
        Inl f \<Rightarrow> Inl f
      | Inr cmd1 \<Rightarrow>
          (case strstr json ''"pa_table"'' of
             None \<Rightarrow> Inr cmd1
           | Some pa_pos \<Rightarrow>
               (case strchr pa_pos (CHR ''['') of
                  None \<Rightarrow> Inr cmd1
                | Some pa_arr \<Rightarrow> parse_pa_table (tl pa_arr) (cmd1\<lparr>pa_table_count := 0\<rparr>))))\<close>

definition parse_read_register :: "char list \<Rightarrow> Command \<Rightarrow> fault + Command" where
  \<open>parse_read_register json cmd =
     (case int_field json ''"addr"'' of
        Inl f \<Rightarrow> Inl f
      | Inr a \<Rightarrow> Inr (case a of None \<Rightarrow> cmd | Some v \<Rightarrow> cmd\<lparr>cmd_addr := word_of_int v\<rparr>))\<close>

text \<open>
  The start of \<^verbatim>\<open>protocol_parse_command\<close>: the pointer \<open>value_start\<close> after the
  marker has been found with \<^verbatim>\<open>strstr\<close>, the colon after it with \<^verbatim>\<open>strchr\<close>, and
  the spaces and double quotes behind the colon have been skipped.  \<open>None\<close> stands for
  the two early \<^verbatim>\<open>return false\<close>.
\<close>

definition value_start :: "char list \<Rightarrow> char list option" where
  \<open>value_start json =
     (case strstr json ''"cmd"'' of
        None \<Rightarrow> None
      | Some cmd_pos \<Rightarrow>
          (case strchr cmd_pos (CHR '':'') of
             None \<Rightarrow> None
           | Some colon \<Rightarrow> Some (dropWhile (\<lambda>c. c = CHR '' '' \<or> c = CHR 0x22) (tl colon))))\<close>

text \<open>
  \<^verbatim>\<open>protocol_parse_command\<close>.  \<open>buf\<close> is the memory \<open>json\<close> points to and \<open>old\<close> is
  what the caller's \<^verbatim>\<open>Command\<close> held before the call.  The result is the returned
  \<^verbatim>\<open>bool\<close> and the command written through \<open>cmd\<close>.  The last line is the function's
  \<^verbatim>\<open>return cmd->type != CMD_UNKNOWN\<close>.
\<close>

definition protocol_parse_command :: "char list \<Rightarrow> Command \<Rightarrow> fault + (bool \<times> Command)" where
  \<open>protocol_parse_command buf old =
     (let json = cstr buf;
          cmd = zero_command\<lparr>cmd_type := CMD_UNKNOWN\<rparr>
      in case value_start json of
           None \<Rightarrow> Inr (False, cmd)
         | Some start \<Rightarrow>
             (case
                (if strncmp_eq start ''write_register'' 14 then
                   parse_write_register json (cmd\<lparr>cmd_type := CMD_WRITE_REGISTER\<rparr>)
                 else if strncmp_eq start ''write_bulk'' 10 then
                   parse_write_bulk json (cmd\<lparr>cmd_type := CMD_WRITE_BULK\<rparr>)
                 else if strncmp_eq start ''read_register'' 13 then
                   parse_read_register json (cmd\<lparr>cmd_type := CMD_READ_REGISTER\<rparr>)
                 else if strncmp_eq start ''ping'' 4 then
                   Inr (cmd\<lparr>cmd_type := CMD_PING\<rparr>)
                 else Inr cmd) of
                Inl f \<Rightarrow> Inl f
              | Inr cmd' \<Rightarrow> Inr (cmd_type cmd' \<noteq> CMD_UNKNOWN, cmd')))\<close>

text \<open>
  The encoder.  \<^verbatim>\<open>snprintf\<close> into a buffer of \<open>n\<close> bytes keeps at most \<open>n - 1\<close>
  characters.
\<close>

definition protocol_generate_ack :: string where
  \<open>protocol_generate_ack = ''{"type":"ack","success":true}''\<close>

definition protocol_generate_error :: "ErrorCode \<Rightarrow> string \<Rightarrow> string" where
  \<open>protocol_generate_error code msg =
     take 255 (''{"type":"error","code":'' @ show_int (error_code code)
               @ '',"msg":"'' @ msg @ ''"}'')\<close>

definition protocol_generate_data :: "8 word \<Rightarrow> string" where
  \<open>protocol_generate_data v = take 63 (''{"type":"data","value":'' @ decimal (unat v) @ ''}'')\<close>

section \<open>cc1101\_bridge\_cc1101.c: the reference backend\<close>

definition CC1101_MAX_REGISTER :: "8 word" where
  "CC1101_MAX_REGISTER = 0x2E"

definition PA_TABLE_SIZE :: "8 word" where
  "PA_TABLE_SIZE = 8"

record Cc1101Context =
  initialized :: bool

text \<open>
  The calls into \<^verbatim>\<open>furi_hal_subghz\<close>, each with the bytes the backend has written into
  the array it passes.  The backend's effect on the hardware is the list of these calls.
\<close>

datatype hal_call =
  Subghz_reset
  | Load_registers "8 word list"
  | Load_patable "8 word list"
  | Subghz_sleep

definition cc1101_init :: "hal_call list \<Rightarrow> bool \<times> Cc1101Context \<times> hal_call list" where
  "cc1101_init hal = (True, \<lparr>initialized = True\<rparr>, hal @ [Subghz_reset])"

definition cc1101_write_register ::
  "Cc1101Context \<Rightarrow> 8 word \<Rightarrow> 8 word \<Rightarrow> hal_call list \<Rightarrow> bool \<times> hal_call list" where
  "cc1101_write_register ctx a v hal =
     (if \<not> initialized ctx then (False, hal)
      else if a > CC1101_MAX_REGISTER then (False, hal)
      else (True, hal @ [Load_registers [a, v, 0x00, 0x00]]))"

text \<open>
  The loop of \<^verbatim>\<open>cc1101_write_bulk\<close>: \<open>None\<close> is its \<^verbatim>\<open>return false\<close>, otherwise the
  bytes stored in \<open>reg_data\<close> so far.
\<close>

function write_bulk_loop ::
  "RegisterPair list \<Rightarrow> nat \<Rightarrow> nat \<Rightarrow> 8 word list \<Rightarrow> 8 word list option" where
  "write_bulk_loop regs count i reg_data =
     (if i < count then
        (if reg_addr (regs ! i) > CC1101_MAX_REGISTER then None
         else write_bulk_loop regs count (i + 1)
                (reg_data @ [reg_addr (regs ! i), reg_value (regs ! i)]))
      else Some reg_data)"
  by pat_completeness auto
termination
  by (relation "measure (\<lambda>(regs, count, i, reg_data). count - i)") auto

declare write_bulk_loop.simps [simp del]

definition cc1101_write_bulk ::
  "Cc1101Context \<Rightarrow> RegisterPair list \<Rightarrow> 8 word \<Rightarrow> hal_call list \<Rightarrow> bool \<times> hal_call list" where
  "cc1101_write_bulk ctx regs count hal =
     (if \<not> initialized ctx then (False, hal)
      else (case write_bulk_loop regs (unat count) 0 [] of
              None \<Rightarrow> (False, hal)
            | Some reg_data \<Rightarrow> (True, hal @ [Load_registers (reg_data @ [0x00, 0x00])])))"

text \<open>The copy loop of \<^verbatim>\<open>cc1101_write_patable\<close> into \<open>full_pa\<close>.\<close>

function patable_loop :: "8 word list \<Rightarrow> nat \<Rightarrow> nat \<Rightarrow> 8 word list \<Rightarrow> 8 word list" where
  "patable_loop pa count i full_pa =
     (if i < count then patable_loop pa count (i + 1) (full_pa[i := pa ! i]) else full_pa)"
  by pat_completeness auto
termination
  by (relation "measure (\<lambda>(pa, count, i, full_pa). count - i)") auto

declare patable_loop.simps [simp del]

definition cc1101_write_patable ::
  "Cc1101Context \<Rightarrow> 8 word list \<Rightarrow> 8 word \<Rightarrow> hal_call list \<Rightarrow> bool \<times> hal_call list" where
  "cc1101_write_patable ctx pa count hal =
     (if \<not> initialized ctx then (False, hal)
      else (let count' = (if count > PA_TABLE_SIZE then PA_TABLE_SIZE else count)
            in (True, hal @ [Load_patable (patable_loop pa (unat count') 0 (replicate 8 0))])))"

definition cc1101_read_register :: "Cc1101Context \<Rightarrow> 8 word \<Rightarrow> 8 word" where
  "cc1101_read_register ctx a =
     (if \<not> initialized ctx then 0
      else if a > CC1101_MAX_REGISTER then 0
      else 0)"

section \<open>cc1101\_bridge\_app.c: the dispatcher\<close>

text \<open>
  The part of \<^verbatim>\<open>App\<close> that \<^verbatim>\<open>app_process_command\<close> reads or writes, together with the
  two things it does to the outside: \<open>subghz\<close> is the list of calls made to the radio
  HAL so far and \<open>cdc_tx\<close> the bytes sent with \<^verbatim>\<open>furi_hal_cdc_send\<close> so far.  Log
  output is left out.
\<close>

record App =
  cc1101 :: Cc1101Context
  commands_processed :: "32 word"
  status_text :: string
  subghz :: "hal_call list"
  cdc_tx :: "char list"

text \<open>\<^verbatim>\<open>uart_send_response\<close> sends the text and then a newline.\<close>

definition uart_send_response :: "string \<Rightarrow> char list \<Rightarrow> char list" where
  "uart_send_response json tx = tx @ json @ [LF]"

text \<open>
  The \<^verbatim>\<open>switch\<close> of \<^verbatim>\<open>app_process_command\<close>: for each command type the value of
  \<open>success\<close>, the response text, and the application after the backend calls and the
  update of \<open>status_text\<close>.
\<close>

definition app_switch :: "App \<Rightarrow> Command \<Rightarrow> bool \<times> string \<times> App" where
  \<open>app_switch app cmd =
     (case cmd_type cmd of
        CMD_WRITE_REGISTER \<Rightarrow>
          (let (success, hal) =
                 cc1101_write_register (cc1101 app) (cmd_addr cmd) (cmd_value cmd) (subghz app)
           in if success then
                (True, protocol_generate_ack,
                 app\<lparr>subghz := hal,
                     status_text := take 63 (''Wrote 0x'' @ hex02 (cmd_addr cmd)
                                             @ ''->0x'' @ hex02 (cmd_value cmd))\<rparr>)
              else
                (False, protocol_generate_error ERR_WRITE_FAILED ''Write failed'',
                 app\<lparr>subghz := hal\<rparr>))
      | CMD_WRITE_BULK \<Rightarrow>
          (let (success1, hal1) =
                 cc1101_write_bulk (cc1101 app) (bulk_regs cmd) (bulk_count cmd) (subghz app);
               (success, hal) =
                 (if success1 \<and> pa_table_count cmd > 0 then
                    cc1101_write_patable (cc1101 app) (pa_table cmd) (pa_table_count cmd) hal1
                  else (success1, hal1))
           in if success then
                (True, protocol_generate_ack,
                 app\<lparr>subghz := hal,
                     status_text := take 63 (''Bulk: '' @ decimal (unat (bulk_count cmd))
                                             @ '' regs'')\<rparr>)
              else
                (False, protocol_generate_error ERR_WRITE_FAILED ''Bulk write failed'',
                 app\<lparr>subghz := hal\<rparr>))
      | CMD_READ_REGISTER \<Rightarrow>
          (let reg_value = cc1101_read_register (cc1101 app) (cmd_addr cmd)
           in (True, protocol_generate_data reg_value,
               app\<lparr>status_text := take 63 (''Read 0x'' @ hex02 (cmd_addr cmd)
                                           @ ''=0x'' @ hex02 reg_value)\<rparr>))
      | CMD_PING \<Rightarrow>
          (True, protocol_generate_ack, app\<lparr>status_text := ''Ping OK''\<rparr>)
      | CMD_UNKNOWN \<Rightarrow>
          (False, protocol_generate_error ERR_UNKNOWN_COMMAND ''Unknown command'', app))\<close>

text \<open>
  The code after a successful parse: the \<^verbatim>\<open>switch\<close>, then the response is sent and the
  counter incremented when \<open>success\<close> is set.
\<close>

definition app_execute :: "App \<Rightarrow> Command \<Rightarrow> App" where
  "app_execute app cmd =
     (let (success, response, app1) = app_switch app cmd
      in app1\<lparr>cdc_tx := uart_send_response response (cdc_tx app1),
              commands_processed :=
                (if success then commands_processed app1 + 1 else commands_processed app1)\<rparr>)"

text \<open>
  \<^verbatim>\<open>app_process_command\<close>.  \<open>stack\<close> is what the local \<^verbatim>\<open>Command cmd\<close> holds before the
  parser is called.
\<close>

definition app_process_command :: "App \<Rightarrow> char list \<Rightarrow> Command \<Rightarrow> fault + App" where
  \<open>app_process_command app json_str stack =
     (case protocol_parse_command json_str stack of
        Inl f \<Rightarrow> Inl f
      | Inr (parsed, cmd) \<Rightarrow>
          if \<not> parsed then
            Inr (app\<lparr>cdc_tx := uart_send_response
                                 (protocol_generate_error ERR_INVALID_JSON ''Invalid JSON'')
                                 (cdc_tx app)\<rparr>)
          else Inr (app_execute app cmd))\<close>

text \<open>The bytes an execution has added to the transport, as one response line.\<close>

definition responds :: "App \<Rightarrow> App \<Rightarrow> string \<Rightarrow> bool" where
  "responds app app' line = (cdc_tx app' = cdc_tx app @ line @ [LF])"

section \<open>The accumulator, read abstractly\<close>

text \<open>
  The bytes the accumulator holds are the first \<open>line_pos\<close> bytes of the buffer.  On
  them, a byte that is no terminator acts as \<open>push\<close>: it is appended while fewer than
  \<open>LINE_BUFFER_SIZE - 1\<close> bytes are held, and otherwise everything is dropped, the byte
  included.  A terminator hands over the held bytes as a C string, unless there are none.
\<close>

definition accumulated :: "UartContext \<Rightarrow> char list" where
  "accumulated ctx = take (line_pos ctx) (line_buffer ctx)"

definition uart_ok :: "UartContext \<Rightarrow> bool" where
  "uart_ok ctx \<longleftrightarrow> length (line_buffer ctx) = LINE_BUFFER_SIZE \<and> line_pos ctx < LINE_BUFFER_SIZE"

definition terminator :: "char \<Rightarrow> bool" where
  "terminator c \<longleftrightarrow> c = LF \<or> c = CR"

definition push :: "char list \<Rightarrow> char \<Rightarrow> char list" where
  "push acc c = (if length acc < LINE_BUFFER_SIZE - 1 then acc @ [c] else [])"

definition line_of :: "char list \<Rightarrow> string list" where
  "line_of acc = (if acc = [] then [] else [cstr acc])"

text \<open>
  A trace for the reassembler: 2000 bytes \<open>A\<close> in bursts of at most \<open>RX_BUFFER_SIZE\<close>
  bytes, with a timeout and an empty burst in between, then the line \<open>cmd\<close> and a
  newline in one burst.  \<open>overlong_trace\<close> is the trace with a \<open>ping\<close> request.
\<close>

definition overlong_then :: "char list \<Rightarrow> poll list" where
  "overlong_then cmd =
     [Received (replicate 512 (CHR ''A'')), Elapsed, Received (replicate 512 (CHR ''A'')),
      Received (replicate 512 (CHR ''A'')), Received (replicate 464 (CHR ''A'')), Received [],
      Received (cmd @ [LF])]"

definition overlong_trace :: "poll list" where
  \<open>overlong_trace = overlong_then ''{"cmd":"ping"}''\<close>

section \<open>Notions for stating facts about the parser\<close>

text \<open>
  A text at which a run of digits ends: the end of the string or a byte that is no digit.
\<close>

definition stops :: "char list \<Rightarrow> bool" where
  "stops r \<longleftrightarrow> (case r of [] \<Rightarrow> True | c # _ \<Rightarrow> \<not> isdigit c)"

text \<open>The key label occurs somewhere in the line.\<close>

definition occurs :: "char list \<Rightarrow> char list \<Rightarrow> bool" where
  "occurs needle hay \<longleftrightarrow> (\<exists>pre post. hay = pre @ needle @ post)"

text \<open>
  What one iteration of each scanning loop does to the command when it has found an
  entry: the write into the next free slot and the increment of the count.
\<close>

definition store_pair :: "Command \<Rightarrow> RegisterPair \<Rightarrow> Command" where
  "store_pair cmd r =
     cmd\<lparr>bulk_regs := (bulk_regs cmd)[unat (bulk_count cmd) := r],
         bulk_count := bulk_count cmd + 1\<rparr>"

definition store_pa :: "Command \<Rightarrow> 8 word \<Rightarrow> Command" where
  "store_pa cmd v =
     cmd\<lparr>pa_table := (pa_table cmd)[unat (pa_table_count cmd) := v],
         pa_table_count := pa_table_count cmd + 1\<rparr>"

text \<open>
  Request lines in the wire format, with the integers printed in decimal:
  \<^verbatim>\<open>{"cmd":"write_register","addr":A,"value":V}\<close> and
  \<^verbatim>\<open>{"cmd":"read_register","addr":A}\<close>.
\<close>

definition request_write_register :: "int \<Rightarrow> int \<Rightarrow> string" where
  \<open>request_write_register a v =
     ''{"cmd":"write_register","addr":'' @ show_int a @ '',"value":'' @ show_int v @ ''}''\<close>

definition request_read_register :: "int \<Rightarrow> string" where
  \<open>request_read_register a = ''{"cmd":"read_register","addr":'' @ show_int a @ ''}''\<close>

text \<open>
  A \<open>write_bulk\<close> request in the wire format,
  \<^verbatim>\<open>{"cmd":"write_bulk","registers":{"A1":V1,"A2":V2,...}}\<close>: each pair is
  printed as its address in quotes, a colon and its value; pairs are separated by commas.
\<close>

definition render_pair :: "RegisterPair \<Rightarrow> string" where
  \<open>render_pair r =
     ''"'' @ decimal (unat (reg_addr r)) @ ''":'' @ decimal (unat (reg_value r))\<close>

fun render_pairs :: "RegisterPair list \<Rightarrow> string" where
  "render_pairs [] = []"
| "render_pairs [r] = render_pair r"
| "render_pairs (r # r' # rs) = render_pair r @ '','' @ render_pairs (r' # rs)"

definition request_write_bulk :: "RegisterPair list \<Rightarrow> string" where
  \<open>request_write_bulk rs = ''{"cmd":"write_bulk","registers":{'' @ render_pairs rs @ ''}}''\<close>

text \<open>Storing a pair as the scanning loop does, which stops at \<open>MAX_BULK_REGISTERS\<close>.\<close>

definition store_bounded :: "Command \<Rightarrow> RegisterPair \<Rightarrow> Command" where
  "store_bounded cmd r =
     (if unat (bulk_count cmd) < MAX_BULK_REGISTERS then store_pair cmd r else cmd)"

text \<open>The two bytes a register pair contributes to \<open>reg_data\<close>.\<close>

definition pair_bytes :: "RegisterPair \<Rightarrow> 8 word list" where
  "pair_bytes r = [reg_addr r, reg_value r]"

section \<open>Sample inputs\<close>

text \<open>
  The application as \<^verbatim>\<open>cc1101_bridge_app\<close> sets it up before the main loop: the
  backend initialised, the counter at 0, nothing sent yet.
\<close>

definition app_start :: App where
  "app_start =
     (let (ok, ctx, hal) = cc1101_init []
      in \<lparr>cc1101 = ctx, commands_processed = 0, status_text = ''Waiting for commands...'',
          subghz = hal, cdc_tx = []\<rparr>)"

text \<open>A bulk command of three pairs whose second address, 47, is out of range.\<close>

definition bulk_3 :: Command where
  "bulk_3 = zero_command
     \<lparr>cmd_type := CMD_WRITE_BULK,
      bulk_regs := [\<lparr>reg_addr = 1, reg_value = 5\<rparr>, \<lparr>reg_addr = 47, reg_value = 6\<rparr>,
                    \<lparr>reg_addr = 2, reg_value = 7\<rparr>]
                   @ replicate 44 \<lparr>reg_addr = 0, reg_value = 0\<rparr>,
      bulk_count := 3\<rparr>"

text \<open>A valid bulk command: two pairs and three power-amplifier entries.\<close>

definition bulk_ok :: Command where
  "bulk_ok = zero_command
     \<lparr>cmd_type := CMD_WRITE_BULK,
      bulk_regs := [\<lparr>reg_addr = 1, reg_value = 5\<rparr>, \<lparr>reg_addr = 46, reg_value = 7\<rparr>]
                   @ replicate 45 \<lparr>reg_addr = 0, reg_value = 0\<rparr>,
      bulk_count := 2,
      pa_table := [192, 193, 194, 0, 0, 0, 0, 0],
      pa_table_count := 3\<rparr>"

text \<open>The started application after one register write.\<close>

definition app_written :: App where
  "app_written =
     app_execute app_start
       (zero_command\<lparr>cmd_type := CMD_WRITE_REGISTER, cmd_addr := 10, cmd_value := 60\<rparr>)"

text \<open>Fifty register pairs; the addresses 0, 1 and 2 repeat.\<close>

definition fifty_pairs :: "RegisterPair list" where
  "fifty_pairs = map (\<lambda>i. \<lparr>reg_addr = of_nat (i mod 3), reg_value = of_nat i\<rparr>) [0..<50]"

section \<open>The line reassembler\<close>

lemma length_accumulated: "uart_ok ctx \<Longrightarrow> length (accumulated ctx) = line_pos ctx"
  by (simp add: uart_ok_def accumulated_def)

lemma rx_byte_plain:
  assumes "uart_ok ctx" and "\<not> terminator c"
  shows "\<exists>ctx'. rx_byte ctx c = (ctx', None) \<and> uart_ok ctx'
               \<and> accumulated ctx' = push (accumulated ctx) c"
proof (cases "line_pos ctx < LINE_BUFFER_SIZE - 1")
  case True
  with assms(1) have "take (Suc (line_pos ctx)) ((line_buffer ctx)[line_pos ctx := c])
                      = take (line_pos ctx) (line_buffer ctx) @ [c]"
    by (simp add: uart_ok_def take_Suc_conv_app_nth)
  with True assms show ?thesis
    by (simp add: rx_byte_def terminator_def uart_ok_def accumulated_def push_def)
next
  case False
  with assms show ?thesis
    by (simp add: rx_byte_def terminator_def uart_ok_def accumulated_def push_def
        LINE_BUFFER_SIZE_def)
qed

lemma rx_bytes_plain:
  assumes "uart_ok ctx" and "\<forall>c \<in> set bs. \<not> terminator c"
  shows "\<exists>ctx'. rx_bytes ctx bs = (ctx', None) \<and> uart_ok ctx'
               \<and> accumulated ctx' = foldl push (accumulated ctx) bs"
  using assms
proof (induction bs arbitrary: ctx)
  case Nil
  then show ?case by simp
next
  case (Cons c cs)
  then obtain ctx1 where 1: "rx_byte ctx c = (ctx1, None)" "uart_ok ctx1"
      "accumulated ctx1 = push (accumulated ctx) c"
    using rx_byte_plain [of ctx c] by auto
  with Cons.IH [of ctx1] Cons.prems show ?case by simp
qed

lemma cstr_update_NUL:
  assumes "n < length buf"
  shows "cstr (buf[n := NUL]) = cstr (take n buf)"
proof -
  have "buf[n := NUL] = take n buf @ NUL # drop (Suc n) buf"
    using assms by (rule upd_conv_take_nth_drop)
  then show ?thesis
    by (auto simp: cstr_def takeWhile_append takeWhile_eq_all_conv [THEN iffD2])
qed

lemma rx_byte_terminator:
  assumes "uart_ok ctx" and "terminator c"
  shows "accumulated ctx \<noteq> [] \<Longrightarrow>
           \<exists>ctx'. rx_byte ctx c = (ctx', Some (cstr (accumulated ctx))) \<and> uart_ok ctx'
                 \<and> accumulated ctx' = []"
    and "accumulated ctx = [] \<Longrightarrow> rx_byte ctx c = (ctx, None)"
  using assms
  by (auto simp: rx_byte_def terminator_def uart_ok_def accumulated_def Let_def
      cstr_update_NUL LINE_BUFFER_SIZE_def)

lemma rx_bytes_append_plain:
  assumes "rx_bytes ctx bs = (ctx', None)"
  shows "rx_bytes ctx (bs @ cs) = rx_bytes ctx' cs"
  using assms
  by (induction bs arbitrary: ctx) (auto split: prod.splits option.splits)

lemma rx_bytes_line:
  assumes "uart_ok ctx" and "\<forall>c \<in> set bs. \<not> terminator c" and "terminator t"
  shows "\<exists>ctx'. uart_ok ctx' \<and>
           (let acc = foldl push (accumulated ctx) bs
            in rx_bytes ctx (bs @ [t]) = (ctx', if acc = [] then None else Some (cstr acc)))"
proof -
  from rx_bytes_plain [OF assms(1,2)] obtain ctx1 where
    1: "rx_bytes ctx bs = (ctx1, None)" "uart_ok ctx1"
       "accumulated ctx1 = foldl push (accumulated ctx) bs"
    by blast
  have 2: "rx_bytes ctx (bs @ [t]) = rx_bytes ctx1 [t]"
    using 1(1) by (rule rx_bytes_append_plain)
  show ?thesis
  proof (cases "accumulated ctx1 = []")
    case True
    with rx_byte_terminator(2) [OF 1(2) assms(3)] 1 2 show ?thesis
      by (auto simp: Let_def)
  next
    case False
    with rx_byte_terminator(1) [OF 1(2) assms(3)] 1 2 show ?thesis
      by (auto simp: Let_def)
  qed
qed

lemma delivered_Nil: "delivered_lines ctx [] = []"
  by (subst delivered_lines.simps) simp

lemma delivered_Elapsed: "delivered_lines ctx (Elapsed # ps) = delivered_lines ctx ps"
  by (subst delivered_lines.simps) simp

lemma delivered_Received_None:
  assumes "rx_bytes ctx bs = (ctx', None)"
  shows "delivered_lines ctx (Received bs # ps) = delivered_lines ctx' ps"
proof (cases ps)
  case Nil
  with assms show ?thesis
    by (subst delivered_lines.simps) (simp add: delivered_Nil)
next
  case (Cons p ps')
  with assms show ?thesis
    by (subst delivered_lines.simps, subst (2) delivered_lines.simps) simp
qed

lemma delivered_Received_Some:
  assumes "rx_bytes ctx bs = (ctx', Some l)"
  shows "delivered_lines ctx (Received bs # ps) = l # delivered_lines ctx' ps"
  using assms by (subst delivered_lines.simps) simp

lemma delivered_nothing_received:
  "received ps = [] \<Longrightarrow> delivered_lines ctx ps = []"
proof (induction ps arbitrary: ctx)
  case Nil
  then show ?case by (simp add: delivered_Nil)
next
  case (Cons p ps)
  then show ?case
    by (cases p) (simp_all add: delivered_Elapsed delivered_Received_None)
qed

lemma one_terminated_line:
  assumes "uart_ok ctx" and "received ps = body @ [t]" and "terminator t"
      and "\<forall>c \<in> set body. \<not> terminator c"
  shows "delivered_lines ctx ps = line_of (foldl push (accumulated ctx) body)"
  using assms
proof (induction ps arbitrary: ctx body)
  case Nil
  then show ?case by simp
next
  case (Cons p ps)
  show ?case
  proof (cases p)
    case Elapsed
    with Cons show ?thesis by (simp add: delivered_Elapsed)
  next
    case (Received bs)
    with Cons.prems have eq: "bs @ received ps = body @ [t]" by simp
    show ?thesis
    proof (cases "received ps = []")
      case True
      with eq have bs: "bs = body @ [t]" by simp
      from rx_bytes_line [OF Cons.prems(1) Cons.prems(4) Cons.prems(3)]
      obtain ctx' where "uart_ok ctx'"
        and r: "rx_bytes ctx (body @ [t])
                  = (ctx', if foldl push (accumulated ctx) body = [] then None
                           else Some (cstr (foldl push (accumulated ctx) body)))"
        by (auto simp: Let_def)
      show ?thesis
      proof (cases "foldl push (accumulated ctx) body = []")
        case True
        with r have "rx_bytes ctx bs = (ctx', None)" by (simp add: bs)
        then show ?thesis
          using True \<open>received ps = []\<close>
          by (simp add: Received delivered_Received_None delivered_nothing_received line_of_def)
      next
        case False
        with r have "rx_bytes ctx bs = (ctx', Some (cstr (foldl push (accumulated ctx) body)))"
          by (simp add: bs)
        then show ?thesis
          using False \<open>received ps = []\<close>
          by (simp add: Received delivered_Received_Some delivered_nothing_received line_of_def)
      qed
    next
      case False
      then obtain body2 where b2: "received ps = body2 @ [last (received ps)]"
        by (metis append_butlast_last_id)
      with eq have "bs @ body2 @ [last (received ps)] = body @ [t]" by simp
      then have split: "body = bs @ body2" "last (received ps) = t"
        by (metis append_assoc append1_eq_conv)+
      with b2 have rps: "received ps = body2 @ [t]" by simp
      from split Cons.prems(4) have plain: "\<forall>c \<in> set bs. \<not> terminator c"
        and plain2: "\<forall>c \<in> set body2. \<not> terminator c" by auto
      from rx_bytes_plain [OF Cons.prems(1) plain] obtain ctx' where
        1: "rx_bytes ctx bs = (ctx', None)" "uart_ok ctx'"
           "accumulated ctx' = foldl push (accumulated ctx) bs"
        by blast
      from Cons.IH [OF 1(2) rps Cons.prems(3) plain2] 1 split show ?thesis
        by (simp add: Received delivered_Received_None)
    qed
  qed
qed

lemma foldl_push_closed:
  "foldl push [] xs = drop (length xs - length xs mod LINE_BUFFER_SIZE) xs"
proof (induction xs rule: rev_induct)
  case Nil
  then show ?case by simp
next
  case (snoc c xs)
  let ?n = "length xs"
  let ?acc = "foldl push [] xs"
  have len: "length ?acc = ?n mod LINE_BUFFER_SIZE"
    using snoc by (simp add: LINE_BUFFER_SIZE_def)
  have p: "push ?acc c = (if length ?acc < LINE_BUFFER_SIZE - 1 then ?acc @ [c] else [])"
    by (rule push_def)
  have start: "foldl push [] (xs @ [c]) = push ?acc c" by simp
  show ?case
  proof (cases "?n mod LINE_BUFFER_SIZE < LINE_BUFFER_SIZE - 1")
    case True
    then have m: "Suc ?n mod LINE_BUFFER_SIZE = Suc (?n mod LINE_BUFFER_SIZE)"
      by (simp add: LINE_BUFFER_SIZE_def mod_Suc)
    have le: "?n mod LINE_BUFFER_SIZE \<le> ?n" by simp
    have "push ?acc c = ?acc @ [c]"
      using True len by (simp add: p)
    also have "\<dots> = drop (?n - ?n mod LINE_BUFFER_SIZE) xs @ [c]"
      using snoc by simp
    also have "\<dots> = drop (length (xs @ [c]) - length (xs @ [c]) mod LINE_BUFFER_SIZE) (xs @ [c])"
      using m le by simp
    finally show ?thesis using start by simp
  next
    case False
    then have m: "Suc ?n mod LINE_BUFFER_SIZE = 0"
      by (simp add: LINE_BUFFER_SIZE_def mod_Suc)
    have "push ?acc c = []"
      using False len by (simp add: p)
    also have "\<dots> = drop (length (xs @ [c]) - length (xs @ [c]) mod LINE_BUFFER_SIZE) (xs @ [c])"
      using m by simp
    finally show ?thesis using start by simp
  qed
qed


lemma uart_init_ok:
  "length heap = LINE_BUFFER_SIZE \<Longrightarrow> uart_ok (uart_init heap)"
  "accumulated (uart_init heap) = []"
  by (simp_all add: uart_init_def uart_ok_def accumulated_def LINE_BUFFER_SIZE_def)

lemma one_line_from_start:
  assumes "length heap = LINE_BUFFER_SIZE"
      and "received ps = body @ [t]"
      and "terminator t"
      and "\<forall>c \<in> set body. \<not> terminator c"
  shows "delivered_lines (uart_init heap) ps
           = line_of (drop (length body - length body mod LINE_BUFFER_SIZE) body)"
  using one_terminated_line [OF uart_init_ok(1) [OF assms(1)] assms(2,3,4)]
  by (simp add: uart_init_ok(2) foldl_push_closed)

lemma received_overlong_then:
  "received (overlong_then cmd) = (replicate 2000 (CHR ''A'') @ cmd) @ [LF]"
proof -
  have "replicate 2000 (CHR ''A'')
          = replicate 512 (CHR ''A'') @ replicate 512 (CHR ''A'') @ replicate 512 (CHR ''A'')
            @ replicate 464 (CHR ''A'')"
    by (simp flip: replicate_add)
  then show ?thesis by (simp add: overlong_then_def)
qed

lemma received_overlong_trace:
  \<open>received overlong_trace = (replicate 2000 (CHR ''A'') @ ''{"cmd":"ping"}'') @ [LF]\<close>
  by (simp only: overlong_trace_def received_overlong_then)

lemma overlong_trace_delivers:
  \<open>delivered_lines (uart_init (replicate 1024 NUL)) overlong_trace
     = [replicate 976 (CHR ''A'') @ ''{"cmd":"ping"}'']\<close>
proof -
  have "delivered_lines (uart_init (replicate 1024 NUL)) overlong_trace
          = line_of (drop 1024 (replicate 2000 (CHR ''A'') @ ''{\"cmd\":\"ping\"}''))"
    using one_line_from_start [OF _ received_overlong_trace, of "replicate 1024 NUL"]
    by (simp add: LINE_BUFFER_SIZE_def terminator_def LF_def CR_def)
  then show ?thesis
    by (simp add: line_of_def cstr_def NUL_def takeWhile_append)
qed

text \<open>A line that fits the accumulator is delivered as it was sent.\<close>

lemma short_line_delivered:
  assumes "length heap = LINE_BUFFER_SIZE"
      and "received ps = body @ [t]"
      and "terminator t"
      and "\<forall>c \<in> set body. \<not> terminator c"
      and "body \<noteq> []" and "length body < LINE_BUFFER_SIZE"
  shows "delivered_lines (uart_init heap) ps = [cstr body]"
  using one_line_from_start [OF assms(1-4)] assms(5,6)
  by (simp add: line_of_def)

text \<open>
  \<^verbatim>\<open>uart_receive_line\<close> returns from inside the loop over the burst, so what the burst
  holds behind the terminator of a delivered line is never processed: a second line in
  the same burst is lost.
\<close>

lemma rest_of_burst_dropped:
  assumes "uart_ok ctx" and "\<forall>c \<in> set bs. \<not> terminator c" and "terminator t"
      and "foldl push (accumulated ctx) bs \<noteq> []"
  shows "\<exists>ctx'. rx_bytes ctx (bs @ t # rest)
                  = (ctx', Some (cstr (foldl push (accumulated ctx) bs)))
               \<and> uart_ok ctx' \<and> accumulated ctx' = []"
proof -
  from rx_bytes_plain [OF assms(1,2)] obtain ctx1 where
    1: "rx_bytes ctx bs = (ctx1, None)" "uart_ok ctx1"
       "accumulated ctx1 = foldl push (accumulated ctx) bs"
    by blast
  have 2: "rx_bytes ctx (bs @ t # rest) = rx_bytes ctx1 (t # rest)"
    using 1(1) by (rule rx_bytes_append_plain)
  from rx_byte_terminator(1) [OF 1(2) assms(3)] assms(4) 1(3) obtain ctx' where
    "rx_byte ctx1 t = (ctx', Some (cstr (accumulated ctx1)))" "uart_ok ctx'" "accumulated ctx' = []"
    by auto
  with 1(3) 2 show ?thesis by simp
qed

lemma second_line_of_burst_lost:
  assumes "length heap = LINE_BUFFER_SIZE"
  shows "delivered_lines (uart_init heap) [Received (''ab'' @ [LF] @ ''cd'' @ [LF])] = [''ab'']"
proof -
  define bs where "bs = ''ab''"
  define rest where "rest = ''cd'' @ [LF]"
  have plain: "\<forall>c \<in> set bs. \<not> terminator c"
    by (simp add: bs_def terminator_def LF_def CR_def)
  have acc: "foldl push (accumulated (uart_init heap)) bs = bs"
    by (simp add: bs_def uart_init_ok(2) push_def LINE_BUFFER_SIZE_def)
  have ne: "bs \<noteq> []" by (simp add: bs_def)
  from rest_of_burst_dropped [OF uart_init_ok(1) [OF assms] plain, of LF rest] acc ne
  obtain ctx' where "rx_bytes (uart_init heap) (bs @ LF # rest) = (ctx', Some (cstr bs))"
    by (auto simp: terminator_def)
  then have "delivered_lines (uart_init heap) [Received (bs @ LF # rest)] = [cstr bs]"
    by (simp add: delivered_Received_Some delivered_Nil)
  then show ?thesis
    by (simp add: bs_def rest_def cstr_def NUL_def)
qed

section \<open>The backend loops\<close>

lemma write_bulk_loop_None:
  "\<exists>j. i \<le> j \<and> j < count \<and> reg_addr (regs ! j) > CC1101_MAX_REGISTER
   \<Longrightarrow> write_bulk_loop regs count i acc = None"
proof (induction regs count i acc rule: write_bulk_loop.induct)
  case (1 regs count i reg_data)
  then obtain j where j: "i \<le> j" "j < count" "reg_addr (regs ! j) > CC1101_MAX_REGISTER"
    by blast
  show ?case
  proof (cases "reg_addr (regs ! i) > CC1101_MAX_REGISTER")
    case True
    with j show ?thesis by (subst write_bulk_loop.simps) simp
  next
    case False
    with j have "i \<noteq> j" by auto
    with j have "\<exists>j. i + 1 \<le> j \<and> j < count \<and> reg_addr (regs ! j) > CC1101_MAX_REGISTER"
      by (intro exI [of _ j]) simp
    with 1 False j show ?thesis by (subst write_bulk_loop.simps) simp
  qed
qed

lemma write_bulk_loop_Some:
  "\<forall>j. i \<le> j \<and> j < count \<longrightarrow> reg_addr (regs ! j) \<le> CC1101_MAX_REGISTER
   \<Longrightarrow> count \<le> length regs
   \<Longrightarrow> write_bulk_loop regs count i acc
       = Some (acc @ concat (map pair_bytes (take (count - i) (drop i regs))))"
proof (induction regs count i acc rule: write_bulk_loop.induct)
  case (1 regs count i reg_data)
  show ?case
  proof (cases "i < count")
    case True
    with 1 have ok: "\<not> reg_addr (regs ! i) > CC1101_MAX_REGISTER" by (simp add: not_less)
    from True 1 have il: "i < length regs" by simp
    have step: "take (count - i) (drop i regs) = regs ! i # take (count - Suc i) (drop (Suc i) regs)"
      using True il by (metis Cons_nth_drop_Suc Suc_diff_Suc take_Suc_Cons)
    have pb: "pair_bytes (regs ! i) = [reg_addr (regs ! i), reg_value (regs ! i)]"
      by (simp add: pair_bytes_def)
    from 1 True ok show ?thesis
      by (subst write_bulk_loop.simps) (simp add: step pb)
  next
    case False
    then show ?thesis by (subst write_bulk_loop.simps) simp
  qed
qed

lemma patable_loop_eq:
  "i \<le> count \<Longrightarrow> count \<le> length pa \<Longrightarrow> count \<le> length full_pa
   \<Longrightarrow> patable_loop pa count i full_pa
       = take i full_pa @ take (count - i) (drop i pa) @ drop count full_pa"
proof (induction pa count i full_pa rule: patable_loop.induct)
  case (1 pa count i full_pa)
  show ?case
  proof (cases "i < count")
    case True
    have a: "take (Suc i) (full_pa[i := pa ! i]) = take i full_pa @ [pa ! i]"
      using True 1 by (simp add: take_Suc_conv_app_nth)
    have b: "take (count - i) (drop i pa) = pa ! i # take (count - Suc i) (drop (Suc i) pa)"
      using True 1 by (metis Cons_nth_drop_Suc Suc_diff_Suc take_Suc_Cons less_le_trans)
    have c: "drop count (full_pa[i := pa ! i]) = drop count full_pa"
      using True by simp
    from 1 True show ?thesis
      by (subst patable_loop.simps) (simp add: a b c)
  next
    case False
    with 1 show ?thesis by (subst patable_loop.simps) simp
  qed
qed

lemma write_bulk_invalid:
  assumes "\<exists>i < unat count. reg_addr (regs ! i) > CC1101_MAX_REGISTER"
  shows "cc1101_write_bulk ctx regs count hal = (False, hal)"
proof -
  from assms have "write_bulk_loop regs (unat count) 0 [] = None"
    by (intro write_bulk_loop_None) auto
  then show ?thesis by (simp add: cc1101_write_bulk_def)
qed

lemma write_bulk_valid:
  assumes "initialized ctx" and "unat count \<le> length regs"
      and "\<forall>i < unat count. reg_addr (regs ! i) \<le> CC1101_MAX_REGISTER"
  shows "cc1101_write_bulk ctx regs count hal
           = (True, hal @ [Load_registers (concat (map pair_bytes (take (unat count) regs))
                                            @ [0x00, 0x00])])"
proof -
  have "write_bulk_loop regs (unat count) 0 []
          = Some ([] @ concat (map pair_bytes (take (unat count - 0) (drop 0 regs))))"
    using assms(2,3) by (intro write_bulk_loop_Some) simp_all
  with assms(1) show ?thesis by (simp add: cc1101_write_bulk_def)
qed

lemma write_patable_eq:
  assumes "initialized ctx" and "length pa = 8"
  shows "cc1101_write_patable ctx pa count hal
           = (True, hal @ [Load_patable (take (min (unat count) 8) pa
                                          @ replicate (8 - min (unat count) 8) 0)])"
proof -
  let ?c = "if count > PA_TABLE_SIZE then PA_TABLE_SIZE else count"
  have n: "unat ?c = min (unat count) 8"
    by (auto simp: PA_TABLE_SIZE_def word_less_nat_alt)
  have "patable_loop pa (unat ?c) 0 (replicate 8 0)
          = take (min (unat count) 8) pa @ replicate (8 - min (unat count) 8) 0"
    unfolding n using assms(2) by (subst patable_loop_eq) simp_all
  with assms(1) show ?thesis
    by (simp add: cc1101_write_patable_def Let_def)
qed

lemma write_bulk_cases:
  "cc1101_write_bulk ctx regs count hal = (ok, hal')
   \<Longrightarrow> (ok \<longrightarrow> (\<exists>reg_data. hal' = hal @ [Load_registers reg_data]) \<and> initialized ctx)
       \<and> (\<not> ok \<longrightarrow> hal' = hal)"
  by (auto simp: cc1101_write_bulk_def split: if_splits option.splits)

lemma read_register_zero: "cc1101_read_register ctx a = 0"
  by (simp add: cc1101_read_register_def)

section \<open>The encoder's output\<close>

lemma decimal_small: "n < 10 \<Longrightarrow> decimal n = [digit_char n]"
  by (subst decimal.simps) simp

lemma decimal_step: "10 \<le> n \<Longrightarrow> decimal n = decimal (n div 10) @ [digit_char (n mod 10)]"
  by (subst decimal.simps) simp

lemma length_decimal_byte: "n < 256 \<Longrightarrow> length (decimal n) \<le> 3"
proof -
  assume n: "n < 256"
  consider "n < 10" | "10 \<le> n" "n < 100" | "100 \<le> n" by linarith
  then show ?thesis
  proof cases
    case 1
    then show ?thesis by (simp add: decimal_small)
  next
    case 2
    then have "n div 10 < 10" by simp
    with 2 show ?thesis by (simp add: decimal_step decimal_small)
  next
    case 3
    with n have a: "10 \<le> n div 10" "n div 10 div 10 < 10" by simp_all
    with 3 show ?thesis by (simp add: decimal_step decimal_small)
  qed
qed

lemma generate_data_text:
  \<open>protocol_generate_data v = ''{"type":"data","value":'' @ decimal (unat v) @ ''}''\<close>
proof -
  have "unat v < 256" using unsigned_less [of v, where 'a = nat] by simp
  then have "length (decimal (unat v)) \<le> 3" by (rule length_decimal_byte)
  then show ?thesis by (simp add: protocol_generate_data_def)
qed

lemma generate_error_text:
  \<open>protocol_generate_error ERR_INVALID_JSON ''Invalid JSON''
     = ''{"type":"error","code":1,"msg":"Invalid JSON"}''\<close>
  \<open>protocol_generate_error ERR_UNKNOWN_COMMAND ''Unknown command''
     = ''{"type":"error","code":2,"msg":"Unknown command"}''\<close>
  \<open>protocol_generate_error ERR_WRITE_FAILED ''Write failed''
     = ''{"type":"error","code":5,"msg":"Write failed"}''\<close>
  \<open>protocol_generate_error ERR_WRITE_FAILED ''Bulk write failed''
     = ''{"type":"error","code":5,"msg":"Bulk write failed"}''\<close>
  by (simp_all add: protocol_generate_error_def show_int_def decimal_small digit_char_def
      char_of_eq_iff)

lemma generate_error_prefix:
  \<open>take 10 (protocol_generate_error code msg) = ''{"type":"e''\<close>
  by (simp add: protocol_generate_error_def)

lemma data_line_not_error:
  \<open>''{"type":"data","value":'' @ d @ ''}'' \<noteq> protocol_generate_error code msg\<close>
proof
  assume \<open>''{"type":"data","value":'' @ d @ ''}'' = protocol_generate_error code msg\<close>
  then have \<open>take 10 (''{"type":"data","value":'' @ d @ ''}'')
             = take 10 (protocol_generate_error code msg)\<close>
    by simp
  then show False by (simp add: generate_error_prefix)
qed

lemma ack_not_error: "protocol_generate_ack \<noteq> protocol_generate_error code msg"
proof
  assume "protocol_generate_ack = protocol_generate_error code msg"
  then have "take 10 protocol_generate_ack = take 10 (protocol_generate_error code msg)"
    by simp
  then show False by (simp add: generate_error_prefix protocol_generate_ack_def)
qed

lemma decimal_0: "decimal 0 = ''0''"
  by (simp add: decimal_small digit_char_def char_of_eq_iff)

section \<open>The dispatcher\<close>

lemma execute_read_register:
  "cmd_type cmd = CMD_READ_REGISTER \<Longrightarrow>
   responds app (app_execute app cmd) line
     \<longleftrightarrow> line = protocol_generate_data (cc1101_read_register (cc1101 app) (cmd_addr cmd))"
  by (auto simp: app_execute_def app_switch_def responds_def uart_send_response_def Let_def)

lemma switch_write_bulk:
  assumes "cmd_type cmd = CMD_WRITE_BULK"
      and "cc1101_write_bulk (cc1101 app) (bulk_regs cmd) (bulk_count cmd) (subghz app) = (ok1, hal1)"
      and "(if ok1 \<and> pa_table_count cmd > 0
            then cc1101_write_patable (cc1101 app) (pa_table cmd) (pa_table_count cmd) hal1
            else (ok1, hal1)) = (ok, hal)"
  shows "subghz (app_execute app cmd) = hal"
    and "responds app (app_execute app cmd) line \<longleftrightarrow>
           line = (if ok then protocol_generate_ack
                   else protocol_generate_error ERR_WRITE_FAILED ''Bulk write failed'')"
  using assms
  by (auto simp: app_execute_def app_switch_def responds_def uart_send_response_def)

section \<open>The parser\<close>

lemma isdigit_digit_char: "d < 10 \<Longrightarrow> isdigit (digit_char d)"
  by (simp add: isdigit_def digit_char_def)

lemma digit_val_digit_char: "d < 10 \<Longrightarrow> digit_val (digit_char d) = d"
  by (simp add: digit_val_def digit_char_def)

lemma decimal_digits: "c \<in> set (decimal n) \<Longrightarrow> isdigit c"
proof (induction n arbitrary: c rule: decimal.induct)
  case (1 n)
  show ?case
  proof (cases "n < 10")
    case True
    with 1(2) show ?thesis by (simp add: decimal_small isdigit_digit_char)
  next
    case False
    with 1 show ?thesis by (auto simp: decimal_step isdigit_digit_char)
  qed
qed

lemma decimal_nonempty: "decimal n \<noteq> []"
  by (subst decimal.simps) simp

lemma digits_val_snoc: "digits_val (ds @ [c]) = 10 * digits_val ds + digit_val c"
  by (simp add: digits_val_def)

lemma digits_val_decimal: "digits_val (decimal n) = n"
proof (induction n rule: decimal.induct)
  case (1 n)
  show ?case
  proof (cases "n < 10")
    case True
    then show ?thesis by (simp add: decimal_small digits_val_def digit_val_digit_char)
  next
    case False
    with 1 show ?thesis
      by (simp add: decimal_step digits_val_snoc digit_val_digit_char)
  qed
qed

lemma takeWhile_isdigit_decimal:
  "stops r \<Longrightarrow> takeWhile isdigit (decimal n @ r) = decimal n"
  by (cases r) (auto simp: stops_def takeWhile_append decimal_digits)

lemma dropWhile_isdigit_decimal:
  "stops r \<Longrightarrow> dropWhile isdigit (decimal n @ r) = r"
  by (cases r) (auto simp: stops_def dropWhile_append decimal_digits)

lemma isdigit_not_space: "isdigit c \<Longrightarrow> \<not> isspace c"
  by (auto simp: isdigit_def isspace_def)

lemma isdigit_not_sign: "isdigit c \<Longrightarrow> c \<noteq> CHR ''-'' \<and> c \<noteq> CHR ''+''"
  by (auto simp: isdigit_def)

lemma atoi_digits:
  assumes "isdigit c" and "int (digits_val (takeWhile isdigit (c # s))) \<le> INT_MAX"
  shows "atoi (c # s) = Inr (int (digits_val (takeWhile isdigit (c # s))))"
  using assms isdigit_not_space [OF assms(1)] isdigit_not_sign [OF assms(1)]
  by (simp add: atoi_def INT_MIN_def)

lemma atoi_decimal:
  assumes "int n \<le> INT_MAX" and "stops r"
  shows "atoi (decimal n @ r) = Inr (int n)"
proof -
  obtain c s where cs: "decimal n = c # s"
    using decimal_nonempty [of n] by (cases "decimal n") auto
  then have d: "isdigit c" using decimal_digits [of c n] by simp
  have "atoi (c # s @ r) = Inr (int (digits_val (takeWhile isdigit (c # s @ r))))"
    using takeWhile_isdigit_decimal [OF assms(2), of n] assms(1) cs
    by (intro atoi_digits [OF d]) (simp add: digits_val_decimal [of n, unfolded cs])
  then show ?thesis
    using takeWhile_isdigit_decimal [OF assms(2), of n] cs digits_val_decimal [of n]
    by simp
qed

lemma atoi_minus_decimal:
  assumes "- int n \<ge> INT_MIN" and "stops r"
  shows "atoi (CHR ''-'' # decimal n @ r) = Inr (- int n)"
  using assms takeWhile_isdigit_decimal [OF assms(2), of n]
  by (simp add: atoi_def isspace_def digits_val_decimal INT_MAX_def INT_MIN_def)

lemma atoi_show_int:
  assumes "INT_MIN \<le> i" and "i \<le> INT_MAX" and "stops r"
  shows "atoi (show_int i @ r) = Inr i"
proof (cases "i < 0")
  case True
  with assms atoi_minus_decimal [of "nat (- i)" r] show ?thesis
    by (simp add: show_int_def)
next
  case False
  with assms atoi_decimal [of "nat i" r] show ?thesis
    by (simp add: show_int_def)
qed

lemma occurs_Cons:
  assumes "take (length needle) (c # cs) \<noteq> needle"
  shows "occurs needle (c # cs) \<longleftrightarrow> occurs needle cs"
proof
  assume "occurs needle (c # cs)"
  then obtain pre post where h: "c # cs = pre @ needle @ post"
    by (auto simp: occurs_def)
  show "occurs needle cs"
  proof (cases pre)
    case Nil
    with h have "take (length needle) (c # cs) = needle" by simp
    with assms show ?thesis by simp
  next
    case (Cons a pre')
    with h have "cs = pre' @ needle @ post" by simp
    then show ?thesis by (auto simp: occurs_def)
  qed
next
  assume "occurs needle cs"
  then obtain pre post where "cs = pre @ needle @ post"
    by (auto simp: occurs_def)
  then have "c # cs = (c # pre) @ needle @ post" by simp
  then show "occurs needle (c # cs)" unfolding occurs_def by blast
qed

lemma strstr_None_iff: "strstr hay needle = None \<longleftrightarrow> \<not> occurs needle hay"
proof (induction hay)
  case Nil
  then show ?case by (auto simp: occurs_def)
next
  case (Cons c cs)
  show ?case
  proof (cases "take (length needle) (c # cs) = needle")
    case True
    then have "c # cs = [] @ needle @ drop (length needle) (c # cs)"
      by (metis append_Nil append_take_drop_id)
    then have "occurs needle (c # cs)" unfolding occurs_def by blast
    with True show ?thesis by simp
  next
    case False
    with Cons occurs_Cons [OF False] show ?thesis by simp
  qed
qed

lemma word_succ_le:
  fixes c :: "8 word"
  assumes "unat c < n" and "n \<le> 47"
  shows "unat (c + 1) = unat c + 1"
proof -
  have "unat c + unat (1 :: 8 word) < 2 ^ LENGTH(8)" using assms by simp
  then have "unat (c + 1) = unat c + unat (1 :: 8 word)"
    by (simp only: unat_add_lem)
  then show ?thesis by simp
qed

lemma parse_registers_Nil: "parse_registers [] cmd = Inr cmd"
  by (subst parse_registers.simps) simp

lemma parse_registers_stop:
  "c = CHR ''}'' \<or> \<not> unat (bulk_count cmd) < MAX_BULK_REGISTERS
   \<Longrightarrow> parse_registers (c # p) cmd = Inr cmd"
  by (subst parse_registers.simps) simp

lemma parse_registers_full:
  "\<not> unat (bulk_count cmd) < MAX_BULK_REGISTERS \<Longrightarrow> parse_registers p cmd = Inr cmd"
  by (cases p) (simp_all add: parse_registers_Nil parse_registers_stop)

lemma parse_registers_skip:
  "c \<noteq> CHR ''}'' \<Longrightarrow> unat (bulk_count cmd) < MAX_BULK_REGISTERS \<Longrightarrow> c \<noteq> CHR 0x22
   \<Longrightarrow> parse_registers (c # p) cmd = parse_registers p cmd"
  by (subst parse_registers.simps) simp

lemma parse_registers_quote:
  assumes "unat (bulk_count cmd) < MAX_BULK_REGISTERS"
  shows "parse_registers (CHR 0x22 # p1) cmd =
     (case atoi p1 of
        Inl f \<Rightarrow> Inl f
      | Inr a \<Rightarrow>
          (case dropWhile (\<lambda>x. x \<noteq> CHR '':'') p1 of
             [] \<Rightarrow> Inl Overread
           | colon # p2 \<Rightarrow>
               (case atoi p2 of
                  Inl f \<Rightarrow> Inl f
                | Inr v \<Rightarrow>
                    (case p2 of
                       [] \<Rightarrow> Inl Overread
                     | d # p3 \<Rightarrow>
                         parse_registers p3
                           (store_pair cmd \<lparr>reg_addr = word_of_int a, reg_value = word_of_int v\<rparr>)))))"
  using assms unfolding store_pair_def by (subst parse_registers.simps) simp

lemma parse_registers_keeps:
  "parse_registers p cmd = Inr cmd' \<Longrightarrow>
     cmd_type cmd' = cmd_type cmd \<and> cmd_addr cmd' = cmd_addr cmd \<and> cmd_value cmd' = cmd_value cmd
     \<and> pa_table cmd' = pa_table cmd \<and> pa_table_count cmd' = pa_table_count cmd
     \<and> length (bulk_regs cmd') = length (bulk_regs cmd)
     \<and> (unat (bulk_count cmd) \<le> MAX_BULK_REGISTERS \<longrightarrow> unat (bulk_count cmd') \<le> MAX_BULK_REGISTERS)"
proof (induction p cmd arbitrary: cmd' rule: parse_registers.induct)
  case (1 p cmd)
  show ?case
  proof (cases p)
    case Nil
    with "1.prems" show ?thesis by (simp add: parse_registers_Nil)
  next
    case (Cons c p1)
    consider (stop) "c = CHR ''}'' \<or> \<not> unat (bulk_count cmd) < MAX_BULK_REGISTERS"
      | (skip) "\<not> (c = CHR ''}'' \<or> \<not> unat (bulk_count cmd) < MAX_BULK_REGISTERS)" "c \<noteq> CHR 0x22"
      | (quote) "\<not> (c = CHR ''}'' \<or> \<not> unat (bulk_count cmd) < MAX_BULK_REGISTERS)" "c = CHR 0x22"
      by blast
    then show ?thesis
    proof cases
      case stop
      with "1.prems" Cons show ?thesis by (simp add: parse_registers_stop)
    next
      case skip
      with "1.prems" Cons have "parse_registers p1 cmd = Inr cmd'"
        by (simp add: parse_registers_skip)
      from "1.IH"(2) [OF Cons skip this] show ?thesis .
    next
      case quote
      then have lt: "unat (bulk_count cmd) < MAX_BULK_REGISTERS" by simp
      from "1.prems" Cons quote obtain a colon v d p3 where
        a: "atoi p1 = Inr a"
        and dw: "dropWhile (\<lambda>x. x \<noteq> CHR '':'') p1 = colon # d # p3"
        and v: "atoi (d # p3) = Inr v"
        and rest: "parse_registers p3
                     (store_pair cmd \<lparr>reg_addr = word_of_int a, reg_value = word_of_int v\<rparr>) = Inr cmd'"
        by (auto simp: parse_registers_quote split: sum.splits list.splits)
      from "1.IH"(1) [OF Cons quote a dw v refl rest [unfolded store_pair_def]]
        word_succ_le [OF lt] lt
      show ?thesis by (simp add: MAX_BULK_REGISTERS_def)
    qed
  qed
qed

lemma parse_pa_table_Nil: "parse_pa_table [] cmd = Inr cmd"
  by (subst parse_pa_table.simps) simp

lemma parse_pa_table_stop:
  "c = CHR '']'' \<or> \<not> unat (pa_table_count cmd) < 8 \<Longrightarrow> parse_pa_table (c # p) cmd = Inr cmd"
  by (subst parse_pa_table.simps) simp

lemma parse_pa_table_skip:
  "c \<noteq> CHR '']'' \<Longrightarrow> unat (pa_table_count cmd) < 8 \<Longrightarrow> \<not> isdigit c
   \<Longrightarrow> parse_pa_table (c # p) cmd = parse_pa_table p cmd"
  by (subst parse_pa_table.simps) simp

lemma parse_pa_table_digit:
  assumes "c \<noteq> CHR '']''" and "unat (pa_table_count cmd) < 8" and "isdigit c"
  shows "parse_pa_table (c # p1) cmd =
     (case atoi (c # p1) of
        Inl f \<Rightarrow> Inl f
      | Inr v \<Rightarrow>
          (case dropWhile isdigit (c # p1) of
             [] \<Rightarrow> Inl Overread
           | d # p2 \<Rightarrow> parse_pa_table p2 (store_pa cmd (word_of_int v))))"
  using assms unfolding store_pa_def by (subst parse_pa_table.simps) simp

lemma parse_pa_table_keeps:
  "parse_pa_table p cmd = Inr cmd' \<Longrightarrow>
     cmd_type cmd' = cmd_type cmd \<and> cmd_addr cmd' = cmd_addr cmd \<and> cmd_value cmd' = cmd_value cmd
     \<and> bulk_regs cmd' = bulk_regs cmd \<and> bulk_count cmd' = bulk_count cmd
     \<and> length (pa_table cmd') = length (pa_table cmd)
     \<and> (unat (pa_table_count cmd) \<le> 8 \<longrightarrow> unat (pa_table_count cmd') \<le> 8)"
proof (induction p cmd arbitrary: cmd' rule: parse_pa_table.induct)
  case (1 p cmd)
  show ?case
  proof (cases p)
    case Nil
    with "1.prems" show ?thesis by (simp add: parse_pa_table_Nil)
  next
    case (Cons c p1)
    consider (stop) "c = CHR '']'' \<or> \<not> unat (pa_table_count cmd) < 8"
      | (skip) "\<not> (c = CHR '']'' \<or> \<not> unat (pa_table_count cmd) < 8)" "\<not> isdigit c"
      | (digit) "\<not> (c = CHR '']'' \<or> \<not> unat (pa_table_count cmd) < 8)" "isdigit c"
      by blast
    then show ?thesis
    proof cases
      case stop
      with "1.prems" Cons show ?thesis by (simp add: parse_pa_table_stop)
    next
      case skip
      with "1.prems" Cons have "parse_pa_table p1 cmd = Inr cmd'"
        by (simp add: parse_pa_table_skip)
      from "1.IH"(2) [OF Cons skip this] show ?thesis .
    next
      case digit
      then have lt: "unat (pa_table_count cmd) < 8" by simp
      from "1.prems" Cons digit obtain v d p2 where
        v: "atoi p = Inr v"
        and dw: "dropWhile isdigit p = d # p2"
        and rest: "parse_pa_table p2 (store_pa cmd (word_of_int v)) = Inr cmd'"
        by (auto simp: parse_pa_table_digit split: sum.splits list.splits)
      from "1.IH"(1) [OF Cons digit v dw rest [unfolded store_pa_def]]
        word_succ_le [OF lt] lt
      show ?thesis by simp
    qed
  qed
qed

lemma int_field_None: "strstr json key = None \<Longrightarrow> int_field json key = Inr None"
  by (simp add: int_field_def)

lemma parse_write_register_keeps:
  assumes "parse_write_register json cmd = Inr cmd'"
  shows \<open>cmd_type cmd' = cmd_type cmd \<and> bulk_regs cmd' = bulk_regs cmd
         \<and> bulk_count cmd' = bulk_count cmd \<and> pa_table cmd' = pa_table cmd
         \<and> pa_table_count cmd' = pa_table_count cmd
         \<and> (strstr json ''"addr"'' = None \<longrightarrow> cmd_addr cmd' = cmd_addr cmd)
         \<and> (strstr json ''"value"'' = None \<longrightarrow> cmd_value cmd' = cmd_value cmd)\<close>
  using assms
  by (auto simp: parse_write_register_def int_field_None Let_def split: sum.splits option.splits)

lemma parse_read_register_keeps:
  assumes "parse_read_register json cmd = Inr cmd'"
  shows \<open>cmd_type cmd' = cmd_type cmd \<and> bulk_regs cmd' = bulk_regs cmd
         \<and> bulk_count cmd' = bulk_count cmd \<and> pa_table cmd' = pa_table cmd
         \<and> pa_table_count cmd' = pa_table_count cmd
         \<and> (strstr json ''"addr"'' = None \<longrightarrow> cmd_addr cmd' = cmd_addr cmd)
         \<and> cmd_value cmd' = cmd_value cmd\<close>
  using assms
  by (auto simp: parse_read_register_def int_field_None split: sum.splits option.splits)

lemma parse_write_bulk_keeps:
  assumes "parse_write_bulk json cmd = Inr cmd'"
      and "unat (bulk_count cmd) \<le> MAX_BULK_REGISTERS"
  shows "cmd_type cmd' = cmd_type cmd \<and> cmd_addr cmd' = cmd_addr cmd
         \<and> cmd_value cmd' = cmd_value cmd
         \<and> length (bulk_regs cmd') = length (bulk_regs cmd)
         \<and> length (pa_table cmd') = length (pa_table cmd)
         \<and> unat (bulk_count cmd') \<le> MAX_BULK_REGISTERS
         \<and> (unat (pa_table_count cmd) \<le> 8 \<longrightarrow> unat (pa_table_count cmd') \<le> 8)"
proof -
  from assms(1) obtain cmd1 where
    1: \<open>(case strstr json ''"registers"'' of
              None \<Rightarrow> Inr cmd
            | Some regs_pos \<Rightarrow>
                (case strchr regs_pos (CHR ''{'') of
                   None \<Rightarrow> Inr cmd
                 | Some regs_obj \<Rightarrow> parse_registers (tl regs_obj) cmd)) = Inr cmd1\<close>
    and 2: \<open>(case strstr json ''"pa_table"'' of
             None \<Rightarrow> Inr cmd1
           | Some pa_pos \<Rightarrow>
               (case strchr pa_pos (CHR ''['') of
                  None \<Rightarrow> Inr cmd1
                | Some pa_arr \<Rightarrow> parse_pa_table (tl pa_arr) (cmd1\<lparr>pa_table_count := 0\<rparr>))) = Inr cmd'\<close>
    by (auto simp: parse_write_bulk_def split: sum.splits)
  have k1: "cmd_type cmd1 = cmd_type cmd \<and> cmd_addr cmd1 = cmd_addr cmd \<and> cmd_value cmd1 = cmd_value cmd
     \<and> pa_table cmd1 = pa_table cmd \<and> pa_table_count cmd1 = pa_table_count cmd
     \<and> length (bulk_regs cmd1) = length (bulk_regs cmd)
     \<and> unat (bulk_count cmd1) \<le> MAX_BULK_REGISTERS"
    using 1 assms(2) by (auto split: option.splits dest!: parse_registers_keeps)
  have k2: "cmd_type cmd' = cmd_type cmd1 \<and> cmd_addr cmd' = cmd_addr cmd1 \<and> cmd_value cmd' = cmd_value cmd1
     \<and> bulk_regs cmd' = bulk_regs cmd1 \<and> bulk_count cmd' = bulk_count cmd1
     \<and> length (pa_table cmd') = length (pa_table cmd1)
     \<and> (unat (pa_table_count cmd1) \<le> 8 \<longrightarrow> unat (pa_table_count cmd') \<le> 8)"
    using 2 by (auto split: option.splits dest!: parse_pa_table_keeps)
  from k1 k2 show ?thesis by simp
qed

lemma zero_command_fields:
  "cmd_type zero_command = CMD_UNKNOWN" "cmd_addr zero_command = 0" "cmd_value zero_command = 0"
  "bulk_count zero_command = 0" "pa_table_count zero_command = 0"
  "length (bulk_regs zero_command) = MAX_BULK_REGISTERS" "length (pa_table zero_command) = 8"
  by (simp_all add: zero_command_def)

lemma parse_command_facts:
  assumes "protocol_parse_command buf old = Inr (ok, cmd)"
  shows \<open>(ok \<longleftrightarrow> cmd_type cmd \<noteq> CMD_UNKNOWN)
         \<and> length (bulk_regs cmd) = MAX_BULK_REGISTERS \<and> length (pa_table cmd) = 8
         \<and> unat (bulk_count cmd) \<le> MAX_BULK_REGISTERS \<and> unat (pa_table_count cmd) \<le> 8
         \<and> (strstr (cstr buf) ''"addr"'' = None \<longrightarrow> cmd_addr cmd = 0)
         \<and> (strstr (cstr buf) ''"value"'' = None \<longrightarrow> cmd_value cmd = 0)\<close>
proof (cases "value_start (cstr buf)")
  case None
  with assms show ?thesis
    by (auto simp: protocol_parse_command_def zero_command_fields)
next
  case (Some start)
  let ?z = "zero_command\<lparr>cmd_type := CMD_UNKNOWN\<rparr>"
  consider (wr) "strncmp_eq start ''write_register'' 14"
    | (wb) "\<not> strncmp_eq start ''write_register'' 14" "strncmp_eq start ''write_bulk'' 10"
    | (rr) "\<not> strncmp_eq start ''write_register'' 14" "\<not> strncmp_eq start ''write_bulk'' 10"
           "strncmp_eq start ''read_register'' 13"
    | (other) "\<not> strncmp_eq start ''write_register'' 14" "\<not> strncmp_eq start ''write_bulk'' 10"
           "\<not> strncmp_eq start ''read_register'' 13"
    by blast
  then show ?thesis
  proof cases
    case wr
    with assms Some have "parse_write_register (cstr buf) (?z\<lparr>cmd_type := CMD_WRITE_REGISTER\<rparr>) = Inr cmd"
      and "ok = (cmd_type cmd \<noteq> CMD_UNKNOWN)"
      by (auto simp: protocol_parse_command_def split: sum.splits)
    with parse_write_register_keeps [OF this(1)] show ?thesis
      by (simp add: zero_command_fields)
  next
    case wb
    with assms Some have "parse_write_bulk (cstr buf) (?z\<lparr>cmd_type := CMD_WRITE_BULK\<rparr>) = Inr cmd"
      and "ok = (cmd_type cmd \<noteq> CMD_UNKNOWN)"
      by (auto simp: protocol_parse_command_def split: sum.splits)
    with parse_write_bulk_keeps [OF this(1)] show ?thesis
      by (simp add: zero_command_fields)
  next
    case rr
    with assms Some have "parse_read_register (cstr buf) (?z\<lparr>cmd_type := CMD_READ_REGISTER\<rparr>) = Inr cmd"
      and "ok = (cmd_type cmd \<noteq> CMD_UNKNOWN)"
      by (auto simp: protocol_parse_command_def split: sum.splits)
    with parse_read_register_keeps [OF this(1)] show ?thesis
      by (simp add: zero_command_fields)
  next
    case other
    with assms Some show ?thesis
      by (auto simp: protocol_parse_command_def Let_def zero_command_fields split: if_splits)
  qed
qed

lemma parse_command_unrecognised:
  assumes \<open>\<forall>start. value_start (cstr buf) = Some start \<longrightarrow>
             take 14 start \<noteq> ''write_register'' \<and> take 10 start \<noteq> ''write_bulk''
             \<and> take 13 start \<noteq> ''read_register'' \<and> take 4 start \<noteq> ''ping''\<close>
  shows "protocol_parse_command buf old = Inr (False, zero_command)"
proof -
  have z: "zero_command\<lparr>cmd_type := CMD_UNKNOWN\<rparr> = zero_command"
    by (simp add: zero_command_def)
  show ?thesis
  proof (cases "value_start (cstr buf)")
    case None
    then show ?thesis by (simp add: protocol_parse_command_def z)
  next
    case (Some start)
    with assms show ?thesis
      by (simp add: protocol_parse_command_def Let_def strncmp_eq_def z zero_command_fields)
  qed
qed

lemma parse_command_recognised:
  assumes "protocol_parse_command buf old = Inr (True, cmd)"
  shows \<open>\<exists>start. value_start (cstr buf) = Some start \<and>
           (take 14 start = ''write_register'' \<or> take 10 start = ''write_bulk''
            \<or> take 13 start = ''read_register'' \<or> take 4 start = ''ping'')\<close>
proof (rule ccontr)
  assume "\<not> ?thesis"
  then have "protocol_parse_command buf old = Inr (False, zero_command)"
    by (intro parse_command_unrecognised) auto
  with assms show False by simp
qed

lemma show_int_chars: "c \<in> set (show_int i) \<Longrightarrow> isdigit c \<or> c = CHR ''-''"
  by (auto simp: show_int_def dest: decimal_digits split: if_splits)

lemma show_int_no_NUL: "NUL \<notin> set (show_int i)"
  using show_int_chars [of NUL i] by (auto simp: NUL_def isdigit_def)

lemma show_int_no_quote: "CHR 0x22 \<notin> set (show_int i)"
  using show_int_chars [of "CHR 0x22" i] by (auto simp: isdigit_def)

lemma cstr_no_NUL: "NUL \<notin> set s \<Longrightarrow> cstr s = s"
  by (auto simp: cstr_def)

lemma strstr_skip:
  assumes "needle \<noteq> []" and "hd needle \<notin> set xs"
  shows "strstr (xs @ ys) needle = strstr ys needle"
  using assms(2)
proof (induction xs)
  case Nil
  then show ?case by simp
next
  case (Cons x xs)
  from assms(1) obtain n ns where n: "needle = n # ns" by (cases needle) auto
  with Cons.prems have "x \<noteq> n" by auto
  then have "take (length needle) (x # xs @ ys) \<noteq> needle"
    by (simp add: n)
  with Cons show ?case by simp
qed

lemma stops_simps: "stops [] = True" "stops (c # cs) = (\<not> isdigit c)"
  by (simp_all add: stops_def)

lemma parse_request_write_register:
  assumes "INT_MIN \<le> a" "a \<le> INT_MAX" "INT_MIN \<le> v" "v \<le> INT_MAX"
  shows "protocol_parse_command (request_write_register a v) old
           = Inr (True, zero_command\<lparr>cmd_type := CMD_WRITE_REGISTER,
                                     cmd_addr := word_of_int a, cmd_value := word_of_int v\<rparr>)"
proof -
  let ?json = "request_write_register a v"
  have c: "cstr ?json = ?json"
    by (rule cstr_no_NUL) (simp add: request_write_register_def show_int_no_NUL, simp add: NUL_def)
  have vs: "strncmp_eq (the (value_start ?json)) ''write_register'' 14 \<and> value_start ?json \<noteq> None"
    by (simp add: request_write_register_def value_start_def strncmp_eq_def)
  have fa: \<open>int_field ?json ''"addr"'' = Inr (Some a)\<close>
    using assms(1,2)
    by (simp add: request_write_register_def int_field_def atoi_show_int stops_simps isdigit_def)
  have fv: \<open>int_field ?json ''"value"'' = Inr (Some v)\<close>
    using assms(3,4) atoi_show_int [of v "''}''"]
    by (simp add: request_write_register_def int_field_def strstr_skip show_int_no_quote
        stops_simps isdigit_def)
  from vs obtain start where s: "value_start ?json = Some start"
    "strncmp_eq start ''write_register'' 14"
    by auto
  show ?thesis
    by (simp add: protocol_parse_command_def c s parse_write_register_def fa fv Let_def)
qed

lemma parse_request_read_register:
  assumes "INT_MIN \<le> a" "a \<le> INT_MAX"
  shows "protocol_parse_command (request_read_register a) old
           = Inr (True, zero_command\<lparr>cmd_type := CMD_READ_REGISTER, cmd_addr := word_of_int a\<rparr>)"
proof -
  let ?json = "request_read_register a"
  have c: "cstr ?json = ?json"
    by (rule cstr_no_NUL) (simp add: request_read_register_def show_int_no_NUL, simp add: NUL_def)
  have vs: "value_start ?json \<noteq> None
            \<and> \<not> strncmp_eq (the (value_start ?json)) ''write_register'' 14
            \<and> \<not> strncmp_eq (the (value_start ?json)) ''write_bulk'' 10
            \<and> strncmp_eq (the (value_start ?json)) ''read_register'' 13"
    by (simp add: request_read_register_def value_start_def strncmp_eq_def)
  have fa: \<open>int_field ?json ''"addr"'' = Inr (Some a)\<close>
    using assms atoi_show_int [of a "''}''"]
    by (simp add: request_read_register_def int_field_def stops_simps isdigit_def)
  from vs obtain start where s: "value_start ?json = Some start"
    "\<not> strncmp_eq start ''write_register'' 14" "\<not> strncmp_eq start ''write_bulk'' 10"
    "strncmp_eq start ''read_register'' 13"
    by auto
  show ?thesis
    by (simp add: protocol_parse_command_def c s parse_read_register_def fa Let_def)
qed

lemma execute_response_known:
  assumes "cmd_type cmd \<noteq> CMD_UNKNOWN" and "responds app (app_execute app cmd) line"
  shows \<open>line = ''{"type":"ack","success":true}''
         \<or> line = ''{"type":"error","code":5,"msg":"Write failed"}''
         \<or> line = ''{"type":"error","code":5,"msg":"Bulk write failed"}''
         \<or> line = protocol_generate_data (cc1101_read_register (cc1101 app) (cmd_addr cmd))\<close>
proof (cases "cmd_type cmd")
  case CMD_UNKNOWN
  with assms show ?thesis by simp
next
  case CMD_WRITE_REGISTER
  with assms(2) show ?thesis
    by (auto simp: app_execute_def app_switch_def responds_def uart_send_response_def
        protocol_generate_ack_def generate_error_text split: prod.splits if_splits)
next
  case CMD_WRITE_BULK
  with assms(2) show ?thesis
    by (auto simp: app_execute_def app_switch_def responds_def uart_send_response_def
        protocol_generate_ack_def generate_error_text split: prod.splits if_splits)
next
  case CMD_READ_REGISTER
  with assms(2) show ?thesis
    by (simp add: execute_read_register)
next
  case CMD_PING
  with assms(2) show ?thesis
    by (auto simp: app_execute_def app_switch_def responds_def uart_send_response_def
        protocol_generate_ack_def)
qed

lemma process_unparsed:
  assumes "protocol_parse_command buf stack = Inr (False, cmd)"
  shows \<open>app_process_command app buf stack
           = Inr (app\<lparr>cdc_tx := cdc_tx app @ ''{"type":"error","code":1,"msg":"Invalid JSON"}''
                                  @ [LF]\<rparr>)\<close>
  using assms
  by (simp add: app_process_command_def uart_send_response_def generate_error_text)

lemma process_parsed:
  assumes "protocol_parse_command buf stack = Inr (True, cmd)"
  shows "app_process_command app buf stack = Inr (app_execute app cmd)"
  using assms by (simp add: app_process_command_def)

lemma known_types:
  "cmd_type cmd \<noteq> CMD_UNKNOWN \<longleftrightarrow>
     cmd_type cmd \<in> {CMD_WRITE_REGISTER, CMD_WRITE_BULK, CMD_READ_REGISTER, CMD_PING}"
  by (cases "cmd_type cmd") simp_all

lemma execute_keeps_backend: "cc1101 (app_execute app cmd) = cc1101 app"
  by (auto simp: app_execute_def app_switch_def Let_def
      split: CommandType.splits prod.splits if_splits)

lemma switch_response_backend:
  assumes "cc1101 app' = cc1101 app"
  shows "fst (snd (app_switch app' cmd)) = fst (snd (app_switch app cmd))"
proof (cases "cmd_type cmd")
  case CMD_WRITE_REGISTER
  with assms show ?thesis
    by (auto simp: app_switch_def cc1101_write_register_def split: prod.splits if_splits)
next
  case CMD_WRITE_BULK
  with assms show ?thesis
    by (auto simp: app_switch_def cc1101_write_bulk_def cc1101_write_patable_def Let_def
        split: prod.splits if_splits option.splits)
qed (simp_all add: app_switch_def Let_def assms)

lemma execute_response:
  "responds app (app_execute app cmd) line \<longleftrightarrow> line = fst (snd (app_switch app cmd))"
proof -
  obtain success response app1 where s: "app_switch app cmd = (success, response, app1)"
    by (cases "app_switch app cmd") auto
  have "cdc_tx app1 = cdc_tx app"
    using s by (auto simp: app_switch_def Let_def
        split: CommandType.splits prod.splits if_splits)
  with s show ?thesis
    by (auto simp: app_execute_def responds_def uart_send_response_def)
qed

lemma process_twice:
  assumes "app_process_command app buf stack1 = Inr app1"
  shows "\<exists>app2. app_process_command app1 buf stack2 = Inr app2
              \<and> (\<forall>line. responds app1 app2 line \<longleftrightarrow> responds app app1 line)"
proof -
  from assms obtain ok cmd where p: "protocol_parse_command buf stack1 = Inr (ok, cmd)"
    by (auto simp: app_process_command_def split: sum.splits)
  then have p2: "protocol_parse_command buf stack2 = Inr (ok, cmd)"
    by (simp add: protocol_parse_command_def)
  show ?thesis
  proof (cases ok)
    case False
    with p p2 assms show ?thesis
      by (auto simp: process_unparsed responds_def)
  next
    case True
    with p assms have 1: "app1 = app_execute app cmd" by (simp add: process_parsed)
    from True p2 have 2: "app_process_command app1 buf stack2 = Inr (app_execute app1 cmd)"
      by (simp add: process_parsed)
    have "cc1101 app1 = cc1101 app" by (simp add: 1 execute_keeps_backend)
    from switch_response_backend [OF this, of cmd] show ?thesis
      by (simp add: 2 execute_response) (simp add: 1 execute_response)
  qed
qed

lemmas parser_eval =
  protocol_parse_command_def value_start_def cstr_def NUL_def strncmp_eq_def
  parse_write_register_def parse_read_register_def parse_write_bulk_def int_field_def
  atoi_def isspace_def isdigit_def digits_val_def digit_val_def INT_MAX_def INT_MIN_def

lemma parse_read_10:
  \<open>protocol_parse_command ''{"cmd":"read_register","addr":10}'' stack
     = Inr (True, zero_command\<lparr>cmd_type := CMD_READ_REGISTER, cmd_addr := 10\<rparr>)\<close>
  by (simp add: parser_eval)

section \<open>The scan of the register object on a well-formed request\<close>

lemma isdigit_chars:
  "isdigit c \<Longrightarrow> c \<noteq> CHR ''}'' \<and> c \<noteq> CHR 0x22 \<and> c \<noteq> CHR '':'' \<and> c \<noteq> CHR '','' \<and> c \<noteq> NUL
                 \<and> c \<noteq> CHR ''p''"
  by (auto simp: isdigit_def NUL_def)

lemma parse_registers_digits:
  assumes "\<forall>c \<in> set ds. isdigit c"
  shows "parse_registers (ds @ p) cmd = parse_registers p cmd"
proof (cases "unat (bulk_count cmd) < MAX_BULK_REGISTERS")
  case False
  then show ?thesis by (simp add: parse_registers_full)
next
  case True
  from assms show ?thesis
  proof (induction ds)
    case Nil
    then show ?case by simp
  next
    case (Cons d ds)
    then have "isdigit d" by simp
    from isdigit_chars [OF this] True Cons show ?case
      by (simp add: parse_registers_skip)
  qed
qed

lemma parse_registers_comma:
  "parse_registers (CHR '','' # p) cmd = parse_registers p cmd"
  by (cases "unat (bulk_count cmd) < MAX_BULK_REGISTERS")
     (simp_all add: parse_registers_skip parse_registers_full)

lemma unat_byte_int: "int (unat (w :: 8 word)) \<le> INT_MAX"
proof -
  have "unat w < 256" using unsigned_less [of w, where 'a = nat] by simp
  then have "int (unat w) < 256" by linarith
  then show ?thesis by (simp add: INT_MAX_def)
qed

lemma dropWhile_colon_decimal:
  "dropWhile (\<lambda>x. x \<noteq> CHR '':'') (decimal n @ CHR 0x22 # CHR '':'' # p) = CHR '':'' # p"
  by (auto simp: dropWhile_append dest!: decimal_digits isdigit_chars)

lemma parse_registers_pair:
  assumes "unat (bulk_count cmd) < MAX_BULK_REGISTERS" and "stops p"
  shows "parse_registers (render_pair r @ p) cmd = parse_registers p (store_pair cmd r)"
proof -
  let ?a = "unat (reg_addr r)" and ?v = "unat (reg_value r)"
  obtain d ds where dv: "decimal ?v = d # ds"
    using decimal_nonempty [of ?v] by (cases "decimal ?v") auto
  then have digits: "\<forall>c \<in> set ds. isdigit c"
    using decimal_digits [of _ ?v] by simp
  have a: "atoi (decimal ?a @ CHR 0x22 # CHR '':'' # d # ds @ p) = Inr (int ?a)"
    by (rule atoi_decimal [OF unat_byte_int]) (simp add: stops_simps isdigit_def)
  have "atoi (decimal ?v @ p) = Inr (int ?v)"
    by (rule atoi_decimal [OF unat_byte_int assms(2)])
  then have v: "atoi (d # ds @ p) = Inr (int ?v)"
    by (simp add: dv)
  have w: "\<lparr>reg_addr = reg_addr r, reg_value = reg_value r\<rparr> = r"
    by simp
  have "parse_registers (render_pair r @ p) cmd
          = parse_registers (ds @ p) (store_pair cmd r)"
    by (simp add: render_pair_def parse_registers_quote [OF assms(1)] dv a v
        dropWhile_colon_decimal w)
  then show ?thesis by (simp add: parse_registers_digits [OF digits])
qed

lemma store_bounded_free:
  "unat (bulk_count cmd) < MAX_BULK_REGISTERS \<Longrightarrow> store_bounded cmd r = store_pair cmd r"
  by (simp add: store_bounded_def)

lemma store_bounded_stop:
  "\<not> unat (bulk_count cmd) < MAX_BULK_REGISTERS \<Longrightarrow> store_bounded cmd r = cmd"
  by (simp add: store_bounded_def)

lemma store_bounded_full:
  "\<not> unat (bulk_count cmd) < MAX_BULK_REGISTERS \<Longrightarrow> foldl store_bounded cmd rs = cmd"
  by (induction rs) (simp_all add: store_bounded_stop)

lemma parse_registers_pairs:
  "parse_registers (render_pairs rs @ CHR ''}'' # rest) cmd = Inr (foldl store_bounded cmd rs)"
proof (induction rs arbitrary: cmd rule: render_pairs.induct)
  case 1
  then show ?case by (simp add: parse_registers_stop)
next
  case (2 r)
  show ?case
  proof (cases "unat (bulk_count cmd) < MAX_BULK_REGISTERS")
    case True
    then show ?thesis
      by (simp add: parse_registers_pair stops_simps isdigit_def parse_registers_stop
          store_bounded_free)
  next
    case False
    then show ?thesis by (simp add: parse_registers_full store_bounded_stop)
  qed
next
  case (3 r r' rs)
  show ?case
  proof (cases "unat (bulk_count cmd) < MAX_BULK_REGISTERS")
    case True
    then have "parse_registers (render_pairs (r # r' # rs) @ CHR ''}'' # rest) cmd
                 = parse_registers (render_pairs (r' # rs) @ CHR ''}'' # rest) (store_pair cmd r)"
      by (simp add: parse_registers_pair stops_simps isdigit_def parse_registers_comma)
    with 3 [of "store_pair cmd r"] True show ?thesis
      by (simp add: store_bounded_free)
  next
    case False
    then have "foldl store_bounded cmd (r # r' # rs) = cmd"
      by (rule store_bounded_full)
    then show ?thesis
      by (simp only: parse_registers_full [OF False])
  qed
qed

lemma stored_pairs:
  assumes "unat (bulk_count cmd) \<le> MAX_BULK_REGISTERS"
      and "length (bulk_regs cmd) = MAX_BULK_REGISTERS"
  shows "unat (bulk_count (foldl store_bounded cmd rs))
           = min MAX_BULK_REGISTERS (unat (bulk_count cmd) + length rs)
         \<and> take (min MAX_BULK_REGISTERS (unat (bulk_count cmd) + length rs))
              (bulk_regs (foldl store_bounded cmd rs))
           = take (unat (bulk_count cmd)) (bulk_regs cmd)
             @ take (MAX_BULK_REGISTERS - unat (bulk_count cmd)) rs
         \<and> length (bulk_regs (foldl store_bounded cmd rs)) = MAX_BULK_REGISTERS
         \<and> cmd_type (foldl store_bounded cmd rs) = cmd_type cmd
         \<and> pa_table_count (foldl store_bounded cmd rs) = pa_table_count cmd"
  using assms
proof (induction rs arbitrary: cmd)
  case Nil
  then show ?case by simp
next
  case (Cons r rs)
  let ?n = "unat (bulk_count cmd)"
  show ?case
  proof (cases "?n < MAX_BULK_REGISTERS")
    case False
    with Cons.prems show ?thesis
      by (simp add: store_bounded_full store_bounded_stop)
  next
    case True
    let ?c = "store_pair cmd r"
    have n1: "unat (bulk_count ?c) = Suc ?n"
      using word_succ_le [OF True] by (simp add: store_pair_def MAX_BULK_REGISTERS_def)
    have l1: "length (bulk_regs ?c) = MAX_BULK_REGISTERS"
      using Cons.prems by (simp add: store_pair_def)
    have t1: "take (Suc ?n) (bulk_regs ?c) = take ?n (bulk_regs cmd) @ [r]"
      using True Cons.prems by (simp add: store_pair_def take_Suc_conv_app_nth)
    have f: "cmd_type ?c = cmd_type cmd" "pa_table_count ?c = pa_table_count cmd"
      by (simp_all add: store_pair_def)
    have d: "MAX_BULK_REGISTERS - ?n = Suc (MAX_BULK_REGISTERS - Suc ?n)"
      using True by simp
    from Cons.IH [of ?c] True n1 l1 t1 f show ?thesis
      by (simp add: store_bounded_free d)
  qed
qed

lemma render_pairs_chars:
  "c \<in> set (render_pairs rs) \<Longrightarrow> isdigit c \<or> c = CHR 0x22 \<or> c = CHR '':'' \<or> c = CHR '',''"
  by (induction rs rule: render_pairs.induct)
     (auto simp: render_pair_def dest: decimal_digits)

lemma strstr_absent_char:
  assumes "c \<in> set needle" and "c \<notin> set hay"
  shows "strstr hay needle = None"
proof -
  have "\<not> occurs needle hay"
  proof
    assume "occurs needle hay"
    then obtain pre post where "hay = pre @ needle @ post"
      by (auto simp: occurs_def)
    with assms show False by simp
  qed
  then show ?thesis by (simp add: strstr_None_iff)
qed

lemma parse_request_write_bulk:
  "protocol_parse_command (request_write_bulk rs) old
     = Inr (True, foldl store_bounded (zero_command\<lparr>cmd_type := CMD_WRITE_BULK\<rparr>) rs)"
proof -
  let ?json = "request_write_bulk rs"
  let ?cmd = "zero_command\<lparr>cmd_type := CMD_WRITE_BULK\<rparr>"
  have nul: "NUL \<notin> set (render_pairs rs)"
    using render_pairs_chars [of NUL rs] by (auto simp: NUL_def isdigit_def)
  have p: "CHR ''p'' \<notin> set (render_pairs rs)"
    using render_pairs_chars [of "CHR ''p''" rs] by (auto simp: isdigit_def)
  have c: "cstr ?json = ?json"
    by (rule cstr_no_NUL) (simp add: request_write_bulk_def nul, simp add: NUL_def)
  have vs: "value_start ?json \<noteq> None
            \<and> \<not> strncmp_eq (the (value_start ?json)) ''write_register'' 14
            \<and> strncmp_eq (the (value_start ?json)) ''write_bulk'' 10"
    by (simp add: request_write_bulk_def value_start_def strncmp_eq_def)
  then obtain start where s: "value_start ?json = Some start"
    "\<not> strncmp_eq start ''write_register'' 14" "strncmp_eq start ''write_bulk'' 10"
    by auto
  have pa: \<open>strstr ?json ''"pa_table"'' = None\<close>
    by (rule strstr_absent_char [of "CHR ''p''"]) (simp_all add: request_write_bulk_def p)
  have regs: \<open>parse_write_bulk ?json ?cmd = Inr (foldl store_bounded ?cmd rs)\<close>
    unfolding parse_write_bulk_def pa
    by (simp add: request_write_bulk_def parse_registers_pairs)
  have t: "cmd_type (foldl store_bounded ?cmd rs) = CMD_WRITE_BULK"
    using stored_pairs [of ?cmd rs] by (simp add: zero_command_fields)
  show ?thesis
    by (simp add: protocol_parse_command_def c s regs t Let_def)
qed

section \<open>Processing well-formed requests\<close>

lemma byte_of_int:
  assumes "0 \<le> a" and "a \<le> 255"
  shows "uint (word_of_int a :: 8 word) = a"
  using assms by (simp add: uint_word_of_int)

lemma byte_le_46:
  "(word_of_int a :: 8 word) \<le> 46 \<longleftrightarrow> a mod 256 \<le> 46"
  by (simp add: word_le_def uint_word_of_int)

lemma process_request_write_register:
  assumes "INT_MIN \<le> a" "a \<le> INT_MAX" "INT_MIN \<le> v" "v \<le> INT_MAX"
  shows "app_process_command app (request_write_register a v) stack
           = Inr (app_execute app (zero_command\<lparr>cmd_type := CMD_WRITE_REGISTER,
                                     cmd_addr := word_of_int a, cmd_value := word_of_int v\<rparr>))"
  using parse_request_write_register [OF assms] by (rule process_parsed)

lemma process_request_read_register:
  assumes "INT_MIN \<le> a" "a \<le> INT_MAX"
  shows "app_process_command app (request_read_register a) stack
           = Inr (app_execute app (zero_command\<lparr>cmd_type := CMD_READ_REGISTER,
                                     cmd_addr := word_of_int a\<rparr>))"
  using parse_request_read_register [OF assms] by (rule process_parsed)

lemma execute_write_register:
  assumes "cmd_type cmd = CMD_WRITE_REGISTER" and "initialized (cc1101 app)"
  shows \<open>responds app (app_execute app cmd)
           (if cmd_addr cmd \<le> 46 then ''{"type":"ack","success":true}''
            else ''{"type":"error","code":5,"msg":"Write failed"}'')\<close>
  using assms
  by (auto simp: app_execute_def app_switch_def cc1101_write_register_def responds_def
      uart_send_response_def CC1101_MAX_REGISTER_def protocol_generate_ack_def generate_error_text)

lemma request_write_register_99:
  \<open>request_write_register 99 1 = ''{"cmd":"write_register","addr":99,"value":1}''\<close>
  by (simp add: request_write_register_def show_int_def decimal_small decimal_step
      digit_char_def char_of_eq_iff)

section \<open>Example lines\<close>

text \<open>
  Four requests and their responses on the started application: a ping, a register
  write in range, a register write to address 99, and a line that is no request.
\<close>

lemma scenario_ping:
  \<open>\<exists>app'. app_process_command app_start ''{"cmd":"ping"}'' stack = Inr app'
          \<and> responds app_start app' ''{"type":"ack","success":true}''
          \<and> subghz app' = subghz app_start\<close>
  by (simp add: app_process_command_def parser_eval app_execute_def app_switch_def
      responds_def uart_send_response_def protocol_generate_ack_def)

lemma scenario_write_register:
  \<open>\<exists>app'. app_process_command app_start ''{"cmd":"write_register","addr":15,"value":200}'' stack
            = Inr app'
          \<and> responds app_start app' ''{"type":"ack","success":true}''
          \<and> subghz app' = subghz app_start @ [Load_registers [15, 200, 0, 0]]\<close>
  by (simp add: app_process_command_def parser_eval app_execute_def app_switch_def
      responds_def uart_send_response_def protocol_generate_ack_def cc1101_write_register_def
      app_start_def cc1101_init_def CC1101_MAX_REGISTER_def)

lemma scenario_write_register_99:
  \<open>\<exists>app'. app_process_command app_start ''{"cmd":"write_register","addr":99,"value":1}'' stack
            = Inr app'
          \<and> responds app_start app' ''{"type":"error","code":5,"msg":"Write failed"}''\<close>
  by (simp add: app_process_command_def parser_eval app_execute_def app_switch_def
      responds_def uart_send_response_def generate_error_text cc1101_write_register_def
      app_start_def cc1101_init_def CC1101_MAX_REGISTER_def)

lemma scenario_not_json:
  \<open>\<exists>app'. app_process_command app_start ''not json at all'' stack = Inr app'
          \<and> responds app_start app' ''{"type":"error","code":1,"msg":"Invalid JSON"}''\<close>
  by (simp add: app_process_command_def parser_eval
      responds_def uart_send_response_def generate_error_text)

text \<open>
  The address is narrowed before the backend sees it: address 256 in a request is
  register 0 for the backend, and the write is acknowledged.
\<close>

lemma address_256_wraps:
  \<open>\<exists>app'. app_process_command app_start ''{"cmd":"write_register","addr":256,"value":1}'' stack
            = Inr app'
          \<and> responds app_start app' ''{"type":"ack","success":true}''
          \<and> subghz app' = subghz app_start @ [Load_registers [0, 1, 0, 0]]\<close>
  by (simp add: app_process_command_def parser_eval app_execute_def app_switch_def
      responds_def uart_send_response_def protocol_generate_ack_def cc1101_write_register_def
      app_start_def cc1101_init_def CC1101_MAX_REGISTER_def)

text \<open>
  Lines on which the parser has no defined result: a \<open>registers\<close> object or a
  \<open>pa_table\<close> array that ends inside an entry makes the scan step over the terminator,
  and a number beyond the range of \<^verbatim>\<open>int\<close> has no defined \<^verbatim>\<open>atoi\<close>.
\<close>

lemma cut_off_registers_overread:
  \<open>protocol_parse_command ''{"cmd":"write_bulk","registers":{"1'' old = Inl Overread\<close>
  by (simp add: parser_eval parse_registers_quote zero_command_fields MAX_BULK_REGISTERS_def)

lemma cut_off_pa_table_overread:
  \<open>protocol_parse_command ''{"cmd":"write_bulk","pa_table":[1,2'' old = Inl Overread\<close>
  by (simp add: parser_eval parse_pa_table_digit parse_pa_table_skip zero_command_fields
      store_pa_def)

lemma huge_number_overflow:
  \<open>protocol_parse_command ''{"cmd":"read_register","addr":4294967296}'' old = Inl Int_overflow\<close>
  by (simp add: parser_eval)

section \<open>Claims about the line reassembler\<close>

text \<open>
  Claim C1, as amended.  From an empty accumulator, 2000 bytes without a terminator,
  then a command line and a CR or LF, give at most one delivered line and no error, and
  the first 1024 of the 2000 bytes are never delivered.  Reaching capacity only empties
  the accumulator: the bytes after the 1024th accumulate again.  So for a command line
  of at most 47 bytes the one delivered line is the last 976 of the 2000 bytes followed
  by the command line, read as a C string; for a command line of 48 bytes nothing is
  delivered; for one of 49 to 1071 bytes the one delivered line is the command line
  without its first 48 bytes.
\<close>

theorem overlong_then_command:
  assumes "length heap = LINE_BUFFER_SIZE"
      and "received ps = junk @ cmd @ [t]"
      and "t = LF \<or> t = CR"
      and "\<forall>c \<in> set (junk @ cmd). c \<noteq> LF \<and> c \<noteq> CR"
      and "length junk = 2000"
  shows "(length cmd \<le> 47 \<longrightarrow>
            delivered_lines (uart_init heap) ps = [cstr (drop 1024 junk @ cmd)])
       \<and> (length cmd = 48 \<longrightarrow> delivered_lines (uart_init heap) ps = [])
       \<and> (48 < length cmd \<and> length cmd < 1072 \<longrightarrow>
            delivered_lines (uart_init heap) ps = [cstr (drop 48 cmd)])"
proof -
  let ?k = "length cmd"
  have d: "delivered_lines (uart_init heap) ps
             = line_of (drop (2000 + ?k - (2000 + ?k) mod 1024) (junk @ cmd))"
    using one_line_from_start [OF assms(1), of ps "junk @ cmd" t] assms(2-5)
    by (simp add: terminator_def LINE_BUFFER_SIZE_def)
  have m1: "(2000 + ?k) mod 1024 = (976 + ?k) mod 1024"
    using mod_mult_self2 [of "976 + ?k" 1024 1] by (simp add: add.commute add.left_commute)
  have m2: "(2000 + ?k) mod 1024 = (?k - 48) mod 1024" if "48 \<le> ?k"
    using mod_mult_self2 [of "?k - 48" 1024 2] that by (simp add: add.commute)
  have short: "?k \<le> 47 \<Longrightarrow> 2000 + ?k - (2000 + ?k) mod 1024 = 1024"
    by (simp add: m1)
  have exact: "?k = 48 \<Longrightarrow> 2000 + ?k - (2000 + ?k) mod 1024 = 2048"
    by (simp add: m2)
  have long: "48 < ?k \<Longrightarrow> ?k < 1072 \<Longrightarrow> 2000 + ?k - (2000 + ?k) mod 1024 = 2048"
    by (simp add: m2)
  show ?thesis
  proof (intro conjI impI)
    assume "?k \<le> 47"
    with d short assms(5) show "delivered_lines (uart_init heap) ps = [cstr (drop 1024 junk @ cmd)]"
      by (auto simp: line_of_def)
  next
    assume "?k = 48"
    with d exact assms(5) show "delivered_lines (uart_init heap) ps = []"
      by (simp add: line_of_def)
  next
    assume "48 < ?k \<and> ?k < 1072"
    with d long assms(5) show "delivered_lines (uart_init heap) ps = [cstr (drop 48 cmd)]"
      by (simp add: line_of_def)
  qed
qed

theorem overlong_then_command_witness:
  \<open>delivered_lines (uart_init (replicate 1024 NUL)) overlong_trace
     = [replicate 976 (CHR ''A'') @ ''{"cmd":"ping"}'']
   \<and> delivered_lines (uart_init (replicate 1024 NUL)) (overlong_then (replicate 48 (CHR ''x''))) = []
   \<and> delivered_lines (uart_init (replicate 1024 NUL)) (overlong_then (replicate 60 (CHR ''x'')))
     = [replicate 12 (CHR ''x'')]\<close>
proof -
  have a: \<open>delivered_lines (uart_init (replicate 1024 NUL)) overlong_trace
             = [replicate 976 (CHR ''A'') @ ''{"cmd":"ping"}'']\<close>
    using overlong_then_command
            [of "replicate 1024 NUL" overlong_trace "replicate 2000 (CHR ''A'')"
                \<open>''{"cmd":"ping"}''\<close> LF]
          received_overlong_trace
    by (simp add: LINE_BUFFER_SIZE_def LF_def CR_def cstr_def NUL_def takeWhile_append)
  have b: "delivered_lines (uart_init (replicate 1024 NUL)) (overlong_then (replicate 48 (CHR ''x'')))
             = []"
    using overlong_then_command
            [of "replicate 1024 NUL" "overlong_then (replicate 48 (CHR ''x''))"
                "replicate 2000 (CHR ''A'')" "replicate 48 (CHR ''x'')" LF]
    by (simp add: received_overlong_then LINE_BUFFER_SIZE_def LF_def CR_def)
  have c: "delivered_lines (uart_init (replicate 1024 NUL)) (overlong_then (replicate 60 (CHR ''x'')))
             = [replicate 12 (CHR ''x'')]"
    using overlong_then_command
            [of "replicate 1024 NUL" "overlong_then (replicate 60 (CHR ''x''))"
                "replicate 2000 (CHR ''A'')" "replicate 60 (CHR ''x'')" LF]
    by (simp add: received_overlong_then LINE_BUFFER_SIZE_def LF_def CR_def cstr_def NUL_def)
  from a b c show ?thesis by simp
qed

text \<open>
  Claim C1 as stated fails: on the trace \<open>overlong_trace\<close> the one delivered line is
  976 bytes \<open>A\<close> followed by the \<open>ping\<close> request, not the \<open>ping\<close> request alone.
\<close>

theorem overlong_then_command_counterexample:
  \<open>delivered_lines (uart_init (replicate 1024 NUL)) overlong_trace
     = [replicate 976 (CHR ''A'') @ ''{"cmd":"ping"}'']
   \<and> delivered_lines (uart_init (replicate 1024 NUL)) overlong_trace \<noteq> [''{"cmd":"ping"}'']\<close>
  by (simp add: overlong_trace_delivers)

section \<open>Claims about the dispatcher\<close>

text \<open>
  Claim C2.  A \<open>write_register\<close> command dispatched against an initialised backend is
  answered with the acknowledgment line when its address is at most 46, and with the
  error line of code 5 (write failed, not invalid address) when its address is above 46.
  The same holds for the request line carrying an address between 0 and 255.
\<close>

theorem write_register_dispatch:
  \<open>(cmd_type cmd = CMD_WRITE_REGISTER \<and> initialized (cc1101 app) \<longrightarrow>
       (cmd_addr cmd \<le> 46 \<longrightarrow>
          responds app (app_execute app cmd) ''{"type":"ack","success":true}'')
     \<and> (cmd_addr cmd > 46 \<longrightarrow>
          responds app (app_execute app cmd) ''{"type":"error","code":5,"msg":"Write failed"}''))
   \<and> (initialized (cc1101 app) \<and> 0 \<le> a \<and> a \<le> 255 \<and> INT_MIN \<le> v \<and> v \<le> INT_MAX \<longrightarrow>
       (\<exists>app'. app_process_command app (request_write_register a v) stack = Inr app'
          \<and> responds app app'
                (if a \<le> 46 then ''{"type":"ack","success":true}''
                 else ''{"type":"error","code":5,"msg":"Write failed"}'')))\<close>
proof (intro conjI impI)
  assume h: "cmd_type cmd = CMD_WRITE_REGISTER \<and> initialized (cc1101 app)"
  show \<open>responds app (app_execute app cmd) ''{"type":"ack","success":true}''\<close>
    if "cmd_addr cmd \<le> 46"
    using execute_write_register [of cmd app] h that by simp
  show \<open>responds app (app_execute app cmd) ''{"type":"error","code":5,"msg":"Write failed"}''\<close>
    if "cmd_addr cmd > 46"
    using execute_write_register [of cmd app] h that by (simp add: not_le [symmetric])
next
  assume h: "initialized (cc1101 app) \<and> 0 \<le> a \<and> a \<le> 255 \<and> INT_MIN \<le> v \<and> v \<le> INT_MAX"
  let ?cmd = "zero_command\<lparr>cmd_type := CMD_WRITE_REGISTER,
                            cmd_addr := word_of_int a, cmd_value := word_of_int v\<rparr>"
  have p: "app_process_command app (request_write_register a v) stack = Inr (app_execute app ?cmd)"
    using h by (intro process_request_write_register) (simp_all add: INT_MIN_def INT_MAX_def)
  have "(cmd_addr ?cmd \<le> 46) = (a \<le> 46)"
    using h by (simp add: byte_le_46)
  with execute_write_register [of ?cmd app] h
  have \<open>responds app (app_execute app ?cmd)
          (if a \<le> 46 then ''{"type":"ack","success":true}''
           else ''{"type":"error","code":5,"msg":"Write failed"}'')\<close>
    by simp
  with p show \<open>\<exists>app'. app_process_command app (request_write_register a v) stack = Inr app'
          \<and> responds app app'
                (if a \<le> 46 then ''{"type":"ack","success":true}''
                 else ''{"type":"error","code":5,"msg":"Write failed"}'')\<close>
    by simp
qed

theorem write_register_dispatch_witness:
  \<open>responds app_start
      (app_execute app_start
         (zero_command\<lparr>cmd_type := CMD_WRITE_REGISTER, cmd_addr := 15, cmd_value := 200\<rparr>))
      ''{"type":"ack","success":true}''
   \<and> (\<exists>app'. app_process_command app_start (request_write_register 99 1) zero_command = Inr app'
          \<and> responds app_start app' ''{"type":"error","code":5,"msg":"Write failed"}'')\<close>
  using write_register_dispatch
          [of "zero_command\<lparr>cmd_type := CMD_WRITE_REGISTER, cmd_addr := 15, cmd_value := 200\<rparr>"
              app_start 99 1 zero_command]
  by (simp add: app_start_def cc1101_init_def INT_MIN_def INT_MAX_def)

text \<open>
  Claim C3.  A \<open>write_bulk\<close> command with an address above 46 among its pairs is
  answered with the error line of code 5, and the backend makes no call to the radio
  HAL: the list of calls is the one before the command.
\<close>

theorem write_bulk_invalid_address:
  assumes "cmd_type cmd = CMD_WRITE_BULK"
      and "unat (bulk_count cmd) \<le> length (bulk_regs cmd)"
      and "\<exists>i < unat (bulk_count cmd). reg_addr (bulk_regs cmd ! i) > 46"
  shows \<open>responds app (app_execute app cmd) ''{"type":"error","code":5,"msg":"Bulk write failed"}''
         \<and> subghz (app_execute app cmd) = subghz app\<close>
proof -
  from assms(3)
  have "cc1101_write_bulk (cc1101 app) (bulk_regs cmd) (bulk_count cmd) (subghz app)
          = (False, subghz app)"
    by (intro write_bulk_invalid) (simp add: CC1101_MAX_REGISTER_def)
  with assms(1) show ?thesis
    by (simp add: app_execute_def app_switch_def responds_def uart_send_response_def
        generate_error_text)
qed

theorem write_bulk_invalid_address_witness:
  \<open>responds app_start (app_execute app_start bulk_3)
      ''{"type":"error","code":5,"msg":"Bulk write failed"}''
   \<and> subghz (app_execute app_start bulk_3) = [Subghz_reset]\<close>
proof -
  have "\<exists>i < unat (bulk_count bulk_3). reg_addr (bulk_regs bulk_3 ! i) > 46"
    by (rule exI [of _ 1]) (simp add: bulk_3_def)
  with write_bulk_invalid_address [of bulk_3 app_start] show ?thesis
    by (simp add: bulk_3_def app_start_def cc1101_init_def)
qed

text \<open>
  Claim C4.  A \<open>read_register\<close> command is answered with a data line carrying a value
  between 0 and 255, never with an error line, whatever its address; for an address
  above 46 the backend returns 0.
\<close>

theorem read_register_dispatch:
  assumes "cmd_type cmd = CMD_READ_REGISTER"
  shows \<open>(\<exists>v :: 8 word. unat v \<le> 255 \<and>
            responds app (app_execute app cmd)
              (''{"type":"data","value":'' @ decimal (unat v) @ ''}''))
         \<and> (\<forall>code msg. \<not> responds app (app_execute app cmd) (protocol_generate_error code msg))
         \<and> (cmd_addr cmd > 46 \<longrightarrow> cc1101_read_register (cc1101 app) (cmd_addr cmd) = 0)\<close>
proof (intro conjI allI)
  let ?v = "cc1101_read_register (cc1101 app) (cmd_addr cmd)"
  have "unat ?v \<le> 255"
    using unsigned_less [of ?v, where 'a = nat] by simp
  moreover have \<open>responds app (app_execute app cmd)
                   (''{"type":"data","value":'' @ decimal (unat ?v) @ ''}'')\<close>
    using assms by (simp add: execute_read_register generate_data_text)
  ultimately show \<open>\<exists>v :: 8 word. unat v \<le> 255 \<and>
            responds app (app_execute app cmd)
              (''{"type":"data","value":'' @ decimal (unat v) @ ''}'')\<close>
    by blast
next
  fix code msg
  show "\<not> responds app (app_execute app cmd) (protocol_generate_error code msg)"
    using assms
      data_line_not_error
        [of "decimal (unat (cc1101_read_register (cc1101 app) (cmd_addr cmd)))" code msg]
    by (simp add: execute_read_register generate_data_text)
next
  show "cmd_addr cmd > 46 \<longrightarrow> cc1101_read_register (cc1101 app) (cmd_addr cmd) = 0"
    by (simp add: read_register_zero)
qed

theorem read_register_dispatch_witness:
  \<open>(\<exists>v :: 8 word. unat v \<le> 255 \<and>
       responds app_start
         (app_execute app_start (zero_command\<lparr>cmd_type := CMD_READ_REGISTER, cmd_addr := 99\<rparr>))
         (''{"type":"data","value":'' @ decimal (unat v) @ ''}''))
   \<and> cc1101_read_register (cc1101 app_start) 99 = 0\<close>
  using read_register_dispatch
          [of "zero_command\<lparr>cmd_type := CMD_READ_REGISTER, cmd_addr := 99\<rparr>" app_start]
  by simp

text \<open>
  Claim C6.  For a \<open>write_bulk\<close> command the bulk register write comes first; the
  power-amplifier table write is attempted only when the bulk write has succeeded and
  \<open>pa_table_count\<close> is not 0, and it works on the list of HAL calls the bulk write has
  left; the answer is the acknowledgment line exactly when the bulk write succeeds and
  the table write, if attempted, succeeds too, and the bulk error line otherwise; the
  table the backend loads is the supplied entries followed by zeros up to 8 entries.
\<close>

theorem write_bulk_dispatch:
  assumes "cmd_type cmd = CMD_WRITE_BULK"
      and "length (pa_table cmd) = 8"
  shows \<open>let bulk = cc1101_write_bulk (cc1101 app) (bulk_regs cmd) (bulk_count cmd) (subghz app);
             attempted = (fst bulk \<and> pa_table_count cmd > 0);
             pa = cc1101_write_patable (cc1101 app) (pa_table cmd) (pa_table_count cmd) (snd bulk);
             n = min (unat (pa_table_count cmd)) 8
         in (fst bulk \<longrightarrow> (\<exists>reg_data. snd bulk = subghz app @ [Load_registers reg_data]))
          \<and> (\<not> fst bulk \<longrightarrow> snd bulk = subghz app)
          \<and> subghz (app_execute app cmd) = (if attempted then snd pa else snd bulk)
          \<and> (responds app (app_execute app cmd) ''{"type":"ack","success":true}''
               \<longleftrightarrow> fst bulk \<and> (attempted \<longrightarrow> fst pa))
          \<and> (\<not> (fst bulk \<and> (attempted \<longrightarrow> fst pa)) \<longrightarrow>
               responds app (app_execute app cmd)
                 ''{"type":"error","code":5,"msg":"Bulk write failed"}'')
          \<and> (attempted \<longrightarrow>
               pa = (True, snd bulk @ [Load_patable (take n (pa_table cmd) @ replicate (8 - n) 0)]))\<close>
proof -
  obtain ok1 hal1 where b: "cc1101_write_bulk (cc1101 app) (bulk_regs cmd) (bulk_count cmd) (subghz app) = (ok1, hal1)"
    by (cases "cc1101_write_bulk (cc1101 app) (bulk_regs cmd) (bulk_count cmd) (subghz app)")
  obtain ok hal where p: "(if ok1 \<and> pa_table_count cmd > 0
            then cc1101_write_patable (cc1101 app) (pa_table cmd) (pa_table_count cmd) hal1
            else (ok1, hal1)) = (ok, hal)"
    by (cases "(if ok1 \<and> pa_table_count cmd > 0
            then cc1101_write_patable (cc1101 app) (pa_table cmd) (pa_table_count cmd) hal1
            else (ok1, hal1))")
  note sw = switch_write_bulk [OF assms(1) b p]
  note bc = write_bulk_cases [OF b]
  have pa: "ok1 \<Longrightarrow> cc1101_write_patable (cc1101 app) (pa_table cmd) (pa_table_count cmd) hal1
      = (True, hal1 @ [Load_patable (take (min (unat (pa_table_count cmd)) 8) (pa_table cmd)
                                          @ replicate (8 - min (unat (pa_table_count cmd)) 8) 0)])"
    using bc assms(2) by (simp add: write_patable_eq)
  show ?thesis
    using bc p pa ack_not_error [of ERR_WRITE_FAILED "''Bulk write failed''"]
    unfolding Let_def b sw
    by (auto simp: generate_error_text protocol_generate_ack_def split: if_splits)
qed


theorem write_bulk_dispatch_witness:
  \<open>subghz (app_execute app_start bulk_ok)
     = [Subghz_reset, Load_registers [1, 5, 46, 7, 0, 0], Load_patable [192, 193, 194, 0, 0, 0, 0, 0]]
   \<and> responds app_start (app_execute app_start bulk_ok) ''{"type":"ack","success":true}''
   \<and> subghz (app_execute app_start bulk_3) = [Subghz_reset]
   \<and> responds app_start (app_execute app_start bulk_3)
         ''{"type":"error","code":5,"msg":"Bulk write failed"}''\<close>
proof -
  have b: "cc1101_write_bulk (cc1101 app_start) (bulk_regs bulk_ok) (bulk_count bulk_ok)
             (subghz app_start)
           = (True, [Subghz_reset, Load_registers [1, 5, 46, 7, 0, 0]])"
    by (simp add: bulk_ok_def app_start_def cc1101_init_def cc1101_write_bulk_def
        write_bulk_loop.simps CC1101_MAX_REGISTER_def)
  have t: "cmd_type bulk_ok = CMD_WRITE_BULK" "length (pa_table bulk_ok) = 8"
    by (simp_all add: bulk_ok_def)
  have p: "pa_table_count bulk_ok = 3" "pa_table bulk_ok = [192, 193, 194, 0, 0, 0, 0, 0]"
    by (simp_all add: bulk_ok_def)
  have r: "replicate 5 (0 :: 8 word) = [0, 0, 0, 0, 0]"
    by (simp add: numeral_eq_Suc)
  have ok: \<open>subghz (app_execute app_start bulk_ok)
     = [Subghz_reset, Load_registers [1, 5, 46, 7, 0, 0], Load_patable [192, 193, 194, 0, 0, 0, 0, 0]]
   \<and> responds app_start (app_execute app_start bulk_ok) ''{"type":"ack","success":true}''\<close>
    using write_bulk_dispatch [OF t, of app_start]
    by (simp add: b p r Let_def)
  have b3: "cc1101_write_bulk (cc1101 app_start) (bulk_regs bulk_3) (bulk_count bulk_3)
              (subghz app_start)
            = (False, [Subghz_reset])"
    by (simp add: bulk_3_def app_start_def cc1101_init_def cc1101_write_bulk_def
        write_bulk_loop.simps CC1101_MAX_REGISTER_def)
  have t3: "cmd_type bulk_3 = CMD_WRITE_BULK" "length (pa_table bulk_3) = 8"
    by (simp_all add: bulk_3_def zero_command_def)
  have bad: \<open>subghz (app_execute app_start bulk_3) = [Subghz_reset]
   \<and> responds app_start (app_execute app_start bulk_3)
         ''{"type":"error","code":5,"msg":"Bulk write failed"}''\<close>
    using write_bulk_dispatch [OF t3, of app_start]
    by (simp add: b3 Let_def)
  from ok bad show ?thesis by simp
qed

section \<open>Claims about whole request lines\<close>

text \<open>
  Claim C9.  The reference backend's register read returns 0 for every address, so
  every line that parses as a \<open>read_register\<close> command, and in particular every
  \<open>read_register\<close> request in the wire format, is answered with exactly the data line
  of value 0, whatever was written before.
\<close>

theorem read_register_always_zero:
  \<open>cc1101_read_register ctx r = 0
   \<and> (\<forall>cmd. protocol_parse_command buf stack = Inr (True, cmd) \<and> cmd_type cmd = CMD_READ_REGISTER
          \<longrightarrow> (\<exists>app'. app_process_command app buf stack = Inr app'
                     \<and> responds app app' ''{"type":"data","value":0}''))
   \<and> (INT_MIN \<le> a \<and> a \<le> INT_MAX
          \<longrightarrow> (\<exists>app'. app_process_command app (request_read_register a) stack = Inr app'
                     \<and> responds app app' ''{"type":"data","value":0}''))\<close>
proof (intro conjI allI impI)
  show "cc1101_read_register ctx r = 0" by (rule read_register_zero)
next
  fix cmd
  assume h: "protocol_parse_command buf stack = Inr (True, cmd) \<and> cmd_type cmd = CMD_READ_REGISTER"
  then have "app_process_command app buf stack = Inr (app_execute app cmd)"
    by (simp add: process_parsed)
  moreover have \<open>responds app (app_execute app cmd) ''{"type":"data","value":0}''\<close>
    using h
    by (simp add: execute_read_register generate_data_text read_register_zero decimal_0)
  ultimately show \<open>\<exists>app'. app_process_command app buf stack = Inr app'
                     \<and> responds app app' ''{"type":"data","value":0}''\<close>
    by simp
next
  assume h: "INT_MIN \<le> a \<and> a \<le> INT_MAX"
  let ?cmd = "zero_command\<lparr>cmd_type := CMD_READ_REGISTER, cmd_addr := word_of_int a\<rparr>"
  have "app_process_command app (request_read_register a) stack = Inr (app_execute app ?cmd)"
    using h by (intro process_request_read_register) simp_all
  moreover have \<open>responds app (app_execute app ?cmd) ''{"type":"data","value":0}''\<close>
    by (simp add: execute_read_register generate_data_text read_register_zero decimal_0)
  ultimately show \<open>\<exists>app'. app_process_command app (request_read_register a) stack = Inr app'
                     \<and> responds app app' ''{"type":"data","value":0}''\<close>
    by simp
qed

theorem read_register_always_zero_witness:
  \<open>subghz app_written = [Subghz_reset, Load_registers [10, 60, 0, 0]]
   \<and> (\<exists>app'. app_process_command app_written ''{"cmd":"read_register","addr":10}'' zero_command
                = Inr app'
             \<and> responds app_written app' ''{"type":"data","value":0}'')
   \<and> (\<exists>app'. app_process_command app_written (request_read_register 10) zero_command = Inr app'
             \<and> responds app_written app' ''{"type":"data","value":0}'')\<close>
proof -
  have w: "subghz app_written = [Subghz_reset, Load_registers [10, 60, 0, 0]]"
    by (simp add: app_written_def app_execute_def app_switch_def cc1101_write_register_def
        app_start_def cc1101_init_def CC1101_MAX_REGISTER_def)
  note t = read_register_always_zero
             [of _ _ \<open>''{"cmd":"read_register","addr":10}''\<close> zero_command app_written 10]
  from t [THEN conjunct2, THEN conjunct1, rule_format, of "zero_command\<lparr>cmd_type := CMD_READ_REGISTER, cmd_addr := 10\<rparr>"]
       parse_read_10 [of zero_command]
  have a: \<open>\<exists>app'. app_process_command app_written ''{"cmd":"read_register","addr":10}'' zero_command
                = Inr app'
             \<and> responds app_written app' ''{"type":"data","value":0}''\<close>
    by simp
  from t [THEN conjunct2, THEN conjunct2]
  have b: \<open>\<exists>app'. app_process_command app_written (request_read_register 10) zero_command = Inr app'
             \<and> responds app_written app' ''{"type":"data","value":0}''\<close>
    by (simp add: INT_MIN_def INT_MAX_def)
  from w a b show ?thesis by simp
qed

text \<open>
  Claim C5.  A line in which the text after the \<open>cmd\<close> marker starts with none of
  the four command words (or that has no marker, or no colon after it) is answered with
  the error line of code 1.  The parser returns success exactly when the command type is
  one of the four known ones, and no line at all is answered with the error line of
  code 2: the \<^verbatim>\<open>default\<close> branch of the dispatcher is never taken.
\<close>

theorem unknown_command_unreachable:
  \<open>((\<forall>start. value_start (cstr buf) = Some start \<longrightarrow>
        take 14 start \<noteq> ''write_register'' \<and> take 10 start \<noteq> ''write_bulk''
        \<and> take 13 start \<noteq> ''read_register'' \<and> take 4 start \<noteq> ''ping'')
      \<longrightarrow> (\<exists>app'. app_process_command app buf stack = Inr app'
                  \<and> responds app app' ''{"type":"error","code":1,"msg":"Invalid JSON"}''))
    \<and> (\<forall>ok cmd. protocol_parse_command buf stack = Inr (ok, cmd) \<longrightarrow>
          (ok \<longleftrightarrow> cmd_type cmd \<in> {CMD_WRITE_REGISTER, CMD_WRITE_BULK, CMD_READ_REGISTER, CMD_PING})
          \<and> (\<not> ok \<longrightarrow> (\<exists>app'. app_process_command app buf stack = Inr app'
                  \<and> responds app app' ''{"type":"error","code":1,"msg":"Invalid JSON"}'')))
    \<and> (\<forall>app'. app_process_command app buf stack = Inr app' \<longrightarrow>
          \<not> responds app app' ''{"type":"error","code":2,"msg":"Unknown command"}'')\<close>
proof (intro conjI allI impI)
  assume \<open>\<forall>start. value_start (cstr buf) = Some start \<longrightarrow>
        take 14 start \<noteq> ''write_register'' \<and> take 10 start \<noteq> ''write_bulk''
        \<and> take 13 start \<noteq> ''read_register'' \<and> take 4 start \<noteq> ''ping''\<close>
  then have "protocol_parse_command buf stack = Inr (False, zero_command)"
    by (rule parse_command_unrecognised)
  then show \<open>\<exists>app'. app_process_command app buf stack = Inr app'
                  \<and> responds app app' ''{"type":"error","code":1,"msg":"Invalid JSON"}''\<close>
    by (simp add: process_unparsed responds_def)
next
  fix ok cmd
  assume p: "protocol_parse_command buf stack = Inr (ok, cmd)"
  from parse_command_facts [OF p]
  show "ok \<longleftrightarrow> cmd_type cmd \<in> {CMD_WRITE_REGISTER, CMD_WRITE_BULK, CMD_READ_REGISTER, CMD_PING}"
    by (simp only: known_types)
  assume "\<not> ok"
  with p show \<open>\<exists>app'. app_process_command app buf stack = Inr app'
                  \<and> responds app app' ''{"type":"error","code":1,"msg":"Invalid JSON"}''\<close>
    by (simp add: process_unparsed responds_def)
next
  fix app'
  assume a: "app_process_command app buf stack = Inr app'"
  then obtain ok cmd where p: "protocol_parse_command buf stack = Inr (ok, cmd)"
    by (auto simp: app_process_command_def split: sum.splits)
  show \<open>\<not> responds app app' ''{"type":"error","code":2,"msg":"Unknown command"}''\<close>
  proof (cases ok)
    case False
    with p a show ?thesis by (auto simp: process_unparsed responds_def)
  next
    case True
    with p a have e: "app' = app_execute app cmd" by (simp add: process_parsed)
    from parse_command_facts [OF p] True have k: "cmd_type cmd \<noteq> CMD_UNKNOWN" by simp
    show ?thesis
    proof
      assume \<open>responds app app' ''{"type":"error","code":2,"msg":"Unknown command"}''\<close>
      from execute_response_known [OF k this [unfolded e]]
      show False
        using data_line_not_error [of _ ERR_UNKNOWN_COMMAND "''Unknown command''"]
        by (auto simp: generate_error_text generate_data_text)
    qed
  qed
qed

theorem unknown_command_unreachable_witness:
  \<open>(\<exists>app'. app_process_command app_start ''{"cmd":"reset"}'' zero_command = Inr app'
          \<and> responds app_start app' ''{"type":"error","code":1,"msg":"Invalid JSON"}'')
   \<and> (\<exists>app'. app_process_command app_start ''not json at all'' zero_command = Inr app'
          \<and> responds app_start app' ''{"type":"error","code":1,"msg":"Invalid JSON"}'')\<close>
  using unknown_command_unreachable [of \<open>''{"cmd":"reset"}''\<close> app_start zero_command]
        unknown_command_unreachable [of \<open>''not json at all''\<close> app_start zero_command]
  by (simp add: value_start_def cstr_def NUL_def)

text \<open>
  Claim C7.  In the command the parser produces, \<open>addr\<close> is 0 when the label
  \<open>"addr"\<close> occurs nowhere in the line, and \<open>value\<close> is 0 when the label \<open>"value"\<close>
  occurs nowhere.  An integer in a request is not rejected for being negative or above
  255: for every \<open>a\<close> and \<open>v\<close> an \<^verbatim>\<open>int\<close> can hold, the \<open>write_register\<close> and
  \<open>read_register\<close> requests carrying them parse, and the fields of the command are
  \<open>a mod 256\<close> and \<open>v mod 256\<close>.
\<close>

theorem integer_fields:
  \<open>(\<forall>ok cmd. protocol_parse_command buf stack = Inr (ok, cmd) \<longrightarrow>
       (\<not> occurs ''"addr"'' (cstr buf) \<longrightarrow> cmd_addr cmd = 0)
     \<and> (\<not> occurs ''"value"'' (cstr buf) \<longrightarrow> cmd_value cmd = 0))
   \<and> (INT_MIN \<le> a \<and> a \<le> INT_MAX \<and> INT_MIN \<le> v \<and> v \<le> INT_MAX \<longrightarrow>
        (\<exists>cmd. protocol_parse_command (request_write_register a v) stack = Inr (True, cmd)
              \<and> cmd_type cmd = CMD_WRITE_REGISTER
              \<and> uint (cmd_addr cmd) = a mod 256 \<and> uint (cmd_value cmd) = v mod 256)
      \<and> (\<exists>cmd. protocol_parse_command (request_read_register a) stack = Inr (True, cmd)
              \<and> cmd_type cmd = CMD_READ_REGISTER
              \<and> uint (cmd_addr cmd) = a mod 256))\<close>
proof (intro conjI allI impI)
  fix ok cmd
  assume p: "protocol_parse_command buf stack = Inr (ok, cmd)"
  note f = parse_command_facts [OF p]
  show "cmd_addr cmd = 0" if \<open>\<not> occurs ''"addr"'' (cstr buf)\<close>
    using f that by (simp add: strstr_None_iff)
  show "cmd_value cmd = 0" if \<open>\<not> occurs ''"value"'' (cstr buf)\<close>
    using f that by (simp add: strstr_None_iff)
next
  assume r: "INT_MIN \<le> a \<and> a \<le> INT_MAX \<and> INT_MIN \<le> v \<and> v \<le> INT_MAX"
  then show "\<exists>cmd. protocol_parse_command (request_write_register a v) stack = Inr (True, cmd)
              \<and> cmd_type cmd = CMD_WRITE_REGISTER
              \<and> uint (cmd_addr cmd) = a mod 256 \<and> uint (cmd_value cmd) = v mod 256"
    by (simp add: parse_request_write_register uint_word_of_int)
  from r show "\<exists>cmd. protocol_parse_command (request_read_register a) stack = Inr (True, cmd)
              \<and> cmd_type cmd = CMD_READ_REGISTER
              \<and> uint (cmd_addr cmd) = a mod 256"
    by (simp add: parse_request_read_register uint_word_of_int)
qed

theorem integer_fields_witness:
  \<open>(\<exists>cmd. protocol_parse_command (request_write_register 300 (- 1)) zero_command = Inr (True, cmd)
          \<and> cmd_type cmd = CMD_WRITE_REGISTER
          \<and> uint (cmd_addr cmd) = 44 \<and> uint (cmd_value cmd) = 255)
   \<and> protocol_parse_command ''{"cmd":"write_register","value":7}'' zero_command
       = Inr (True, zero_command\<lparr>cmd_type := CMD_WRITE_REGISTER, cmd_value := 7\<rparr>)
   \<and> \<not> occurs ''"addr"'' ''{"cmd":"write_register","value":7}''
   \<and> cmd_addr (zero_command\<lparr>cmd_type := CMD_WRITE_REGISTER, cmd_value := 7\<rparr>) = 0\<close>
proof -
  have p: \<open>protocol_parse_command ''{"cmd":"write_register","value":7}'' zero_command
       = Inr (True, zero_command\<lparr>cmd_type := CMD_WRITE_REGISTER, cmd_value := 7\<rparr>)\<close>
    by (simp add: parser_eval)
  have n: \<open>\<not> occurs ''"addr"'' (cstr ''{"cmd":"write_register","value":7}'')\<close>
    by (simp add: strstr_None_iff [symmetric] cstr_def NUL_def)
  have c: \<open>cstr ''{"cmd":"write_register","value":7}'' = ''{"cmd":"write_register","value":7}''\<close>
    by (simp add: cstr_def NUL_def)
  note t = integer_fields [of \<open>''{"cmd":"write_register","value":7}''\<close> zero_command 300 "- 1"]
  from t [THEN conjunct1, rule_format, OF p, THEN conjunct1] n
  have a: "cmd_addr (zero_command\<lparr>cmd_type := CMD_WRITE_REGISTER, cmd_value := 7\<rparr>) = 0"
    by simp
  from t [THEN conjunct2]
  have b: "\<exists>cmd. protocol_parse_command (request_write_register 300 (- 1)) zero_command = Inr (True, cmd)
          \<and> cmd_type cmd = CMD_WRITE_REGISTER
          \<and> uint (cmd_addr cmd) = 44 \<and> uint (cmd_value cmd) = 255"
    by (simp add: INT_MIN_def INT_MAX_def)
  from a b p n c show ?thesis by simp
qed

text \<open>
  Claim C10.  A line that parses as a \<open>write_register\<close> command with an address of
  at most 46, and in particular the request line carrying such an address, is answered
  with the acknowledgment line when it is processed against an initialised backend, and
  again when it is processed a second time right after.  The parser's result does not
  depend on what the \<^verbatim>\<open>Command\<close> held before the call.
\<close>

theorem repeated_write_register:
  \<open>(\<forall>cmd. protocol_parse_command buf stack1 = Inr (True, cmd)
           \<and> cmd_type cmd = CMD_WRITE_REGISTER \<and> cmd_addr cmd \<le> 46 \<and> initialized (cc1101 app)
        \<longrightarrow> (\<exists>app1 app2. app_process_command app buf stack1 = Inr app1
               \<and> responds app app1 ''{"type":"ack","success":true}''
               \<and> app_process_command app1 buf stack2 = Inr app2
               \<and> responds app1 app2 ''{"type":"ack","success":true}''))
   \<and> (0 \<le> a \<and> a \<le> 46 \<and> INT_MIN \<le> v \<and> v \<le> INT_MAX \<and> initialized (cc1101 app)
        \<longrightarrow> (\<exists>app1 app2.
               app_process_command app (request_write_register a v) stack1 = Inr app1
               \<and> responds app app1 ''{"type":"ack","success":true}''
               \<and> app_process_command app1 (request_write_register a v) stack2 = Inr app2
               \<and> responds app1 app2 ''{"type":"ack","success":true}''))
   \<and> (\<forall>line old old'. protocol_parse_command line old = protocol_parse_command line old')\<close>
proof -
  have twice: \<open>\<exists>app1 app2. app_process_command app line stack1 = Inr app1
               \<and> responds app app1 ''{"type":"ack","success":true}''
               \<and> app_process_command app1 line stack2 = Inr app2
               \<and> responds app1 app2 ''{"type":"ack","success":true}''\<close>
    if p: "protocol_parse_command line stack1 = Inr (True, cmd)"
      and c: "cmd_type cmd = CMD_WRITE_REGISTER" "cmd_addr cmd \<le> 46" "initialized (cc1101 app)"
    for line cmd
  proof -
    have 1: "app_process_command app line stack1 = Inr (app_execute app cmd)"
      using p by (rule process_parsed)
    have r1: \<open>responds app (app_execute app cmd) ''{"type":"ack","success":true}''\<close>
      using execute_write_register [of cmd app] c by simp
    from process_twice [OF 1, of stack2] obtain app2 where
      2: "app_process_command (app_execute app cmd) line stack2 = Inr app2"
      and r2: "\<forall>l. responds (app_execute app cmd) app2 l \<longleftrightarrow> responds app (app_execute app cmd) l"
      by blast
    from 1 r1 2 r2 show ?thesis by blast
  qed
  show ?thesis
  proof (intro conjI allI impI)
    fix cmd
    assume "protocol_parse_command buf stack1 = Inr (True, cmd)
           \<and> cmd_type cmd = CMD_WRITE_REGISTER \<and> cmd_addr cmd \<le> 46 \<and> initialized (cc1101 app)"
    then show \<open>\<exists>app1 app2. app_process_command app buf stack1 = Inr app1
               \<and> responds app app1 ''{"type":"ack","success":true}''
               \<and> app_process_command app1 buf stack2 = Inr app2
               \<and> responds app1 app2 ''{"type":"ack","success":true}''\<close>
      by (intro twice [of buf cmd]) simp_all
  next
    assume h: "0 \<le> a \<and> a \<le> 46 \<and> INT_MIN \<le> v \<and> v \<le> INT_MAX \<and> initialized (cc1101 app)"
    let ?cmd = "zero_command\<lparr>cmd_type := CMD_WRITE_REGISTER,
                              cmd_addr := word_of_int a, cmd_value := word_of_int v\<rparr>"
    have p: "protocol_parse_command (request_write_register a v) stack1 = Inr (True, ?cmd)"
      using h by (intro parse_request_write_register) (simp_all add: INT_MIN_def INT_MAX_def)
    have "cmd_addr ?cmd \<le> 46" using h by (simp add: byte_le_46)
    with h show \<open>\<exists>app1 app2.
               app_process_command app (request_write_register a v) stack1 = Inr app1
               \<and> responds app app1 ''{"type":"ack","success":true}''
               \<and> app_process_command app1 (request_write_register a v) stack2 = Inr app2
               \<and> responds app1 app2 ''{"type":"ack","success":true}''\<close>
      by (intro twice [OF p]) simp_all
  next
    fix line old old'
    show "protocol_parse_command line old = protocol_parse_command line old'"
      by (simp add: protocol_parse_command_def)
  qed
qed

theorem repeated_write_register_witness:
  \<open>(\<exists>app1 app2.
       app_process_command app_start ''{"cmd":"write_register","addr":15,"value":200}'' zero_command
         = Inr app1
       \<and> responds app_start app1 ''{"type":"ack","success":true}''
       \<and> app_process_command app1 ''{"cmd":"write_register","addr":15,"value":200}'' bulk_ok
         = Inr app2
       \<and> responds app1 app2 ''{"type":"ack","success":true}'')
   \<and> (\<exists>app1 app2.
       app_process_command app_start (request_write_register 46 (- 1)) zero_command = Inr app1
       \<and> responds app_start app1 ''{"type":"ack","success":true}''
       \<and> app_process_command app1 (request_write_register 46 (- 1)) bulk_ok = Inr app2
       \<and> responds app1 app2 ''{"type":"ack","success":true}'')\<close>
proof -
  have p: \<open>protocol_parse_command ''{"cmd":"write_register","addr":15,"value":200}'' zero_command
       = Inr (True, zero_command\<lparr>cmd_type := CMD_WRITE_REGISTER, cmd_addr := 15, cmd_value := 200\<rparr>)\<close>
    by (simp add: parser_eval)
  have i: "initialized (cc1101 app_start)"
    by (simp add: app_start_def cc1101_init_def)
  note t = repeated_write_register
             [of \<open>''{"cmd":"write_register","addr":15,"value":200}''\<close> zero_command app_start
                 bulk_ok 46 "- 1"]
  from t [THEN conjunct1, rule_format,
          of "zero_command\<lparr>cmd_type := CMD_WRITE_REGISTER, cmd_addr := 15, cmd_value := 200\<rparr>"]
       p i
  have a: \<open>\<exists>app1 app2.
       app_process_command app_start ''{"cmd":"write_register","addr":15,"value":200}'' zero_command
         = Inr app1
       \<and> responds app_start app1 ''{"type":"ack","success":true}''
       \<and> app_process_command app1 ''{"cmd":"write_register","addr":15,"value":200}'' bulk_ok
         = Inr app2
       \<and> responds app1 app2 ''{"type":"ack","success":true}''\<close>
    by simp
  from t [THEN conjunct2, THEN conjunct1] i
  have b: \<open>\<exists>app1 app2.
       app_process_command app_start (request_write_register 46 (- 1)) zero_command = Inr app1
       \<and> responds app_start app1 ''{"type":"ack","success":true}''
       \<and> app_process_command app1 (request_write_register 46 (- 1)) bulk_ok = Inr app2
       \<and> responds app1 app2 ''{"type":"ack","success":true}''\<close>
    by (simp add: INT_MIN_def INT_MAX_def)
  from a b show ?thesis by (rule conjI)
qed

text \<open>
  Claim C8.  Whatever the line, a command the parser produces has \<open>bulk_count\<close> at
  most 47 and \<open>pa_table_count\<close> at most 8 (and arrays of 47 and 8 slots).  A
  \<open>write_bulk\<close> request carrying the pairs \<open>rs\<close> parses; the command holds the first
  47 of them, or all if there are fewer, in the order of the request, equal addresses
  included; the pairs after the 47th are ignored.
\<close>

theorem bulk_counts_bounded:
  \<open>(\<forall>ok cmd. protocol_parse_command buf stack = Inr (ok, cmd) \<longrightarrow>
        unat (bulk_count cmd) \<le> 47 \<and> unat (pa_table_count cmd) \<le> 8
        \<and> length (bulk_regs cmd) = 47 \<and> length (pa_table cmd) = 8)
   \<and> (\<exists>cmd. protocol_parse_command (request_write_bulk rs) stack = Inr (True, cmd)
          \<and> cmd_type cmd = CMD_WRITE_BULK
          \<and> unat (bulk_count cmd) = min (length rs) 47
          \<and> take (unat (bulk_count cmd)) (bulk_regs cmd) = take 47 rs)\<close>
proof (intro conjI allI impI)
  fix ok cmd
  assume "protocol_parse_command buf stack = Inr (ok, cmd)"
  from parse_command_facts [OF this]
  show "unat (bulk_count cmd) \<le> 47" "unat (pa_table_count cmd) \<le> 8"
    "length (bulk_regs cmd) = 47" "length (pa_table cmd) = 8"
    by (simp_all add: MAX_BULK_REGISTERS_def)
next
  let ?cmd = "foldl store_bounded (zero_command\<lparr>cmd_type := CMD_WRITE_BULK\<rparr>) rs"
  from stored_pairs [of "zero_command\<lparr>cmd_type := CMD_WRITE_BULK\<rparr>" rs]
  have "cmd_type ?cmd = CMD_WRITE_BULK \<and> unat (bulk_count ?cmd) = min (length rs) 47
        \<and> take (min (length rs) 47) (bulk_regs ?cmd) = take 47 rs"
    by (simp add: zero_command_fields MAX_BULK_REGISTERS_def min.commute)
  then show "\<exists>cmd. protocol_parse_command (request_write_bulk rs) stack = Inr (True, cmd)
          \<and> cmd_type cmd = CMD_WRITE_BULK
          \<and> unat (bulk_count cmd) = min (length rs) 47
          \<and> take (unat (bulk_count cmd)) (bulk_regs cmd) = take 47 rs"
    by (simp add: parse_request_write_bulk)
qed

theorem bulk_counts_bounded_witness:
  \<open>length fifty_pairs = 50
   \<and> (\<exists>cmd. protocol_parse_command (request_write_bulk fifty_pairs) zero_command = Inr (True, cmd)
          \<and> unat (bulk_count cmd) = 47
          \<and> take 47 (bulk_regs cmd) = take 47 fifty_pairs
          \<and> unat (pa_table_count cmd) \<le> 8)\<close>
proof -
  have l: "length fifty_pairs = 50" by (simp add: fifty_pairs_def)
  note t = bulk_counts_bounded [of "request_write_bulk fifty_pairs" zero_command fifty_pairs]
  from t [THEN conjunct2] obtain cmd where
    c: "protocol_parse_command (request_write_bulk fifty_pairs) zero_command = Inr (True, cmd)"
       "unat (bulk_count cmd) = 47" "take 47 (bulk_regs cmd) = take 47 fifty_pairs"
    by (auto simp: l)
  from t [THEN conjunct1, rule_format, OF c(1)]
  have "unat (pa_table_count cmd) \<le> 8" by simp
  with l c show ?thesis by blast
qed

end
